theory Spec2Isabelle
  imports Main "HOL-Library.Sublist" "HOL-Library.Monad_Syntax"
begin

section \<open>Strings and errors\<close>

text \<open>
  A JavaScript string is a sequence of UTF-16 code units; \<open>length\<close>, indexing,
  \<open>startsWith\<close>, \<open>substring\<close> and \<open>===\<close> on single positions all work on code
  units.  A string is modelled as a list of code units.  Where the source spells out
  literals the code unit type is \<^typ>\<open>char\<close>; the purely structural helpers
  are polymorphic in it.

  Exceptions are values: a function that can throw returns \<open>js_error + 'a\<close>.
\<close>

datatype js_error = RangeError

text \<open>
  \<open>String.prototype.repeat(count)\<close>: throws a \<open>RangeError\<close> for a negative count,
  otherwise the receiver concatenated \<open>count\<close> times.  Counts and lengths are whole
  numbers here; the limit an engine puts on the length of a string is left out.
\<close>

definition repeat :: "'a list \<Rightarrow> int \<Rightarrow> js_error + 'a list" where
  "repeat s n = (if n < 0 then Inl RangeError else Inr (concat (replicate (nat n) s)))"

text \<open>
  \<^verbatim>\<open>
  static padStringBeggining(str: string, length: number, char: string)
  {
      return char.repeat(length - str.length) + str;
  }
  \<close>
\<close>

definition padStringBeggining :: "'a list \<Rightarrow> int \<Rightarrow> 'a list \<Rightarrow> js_error + 'a list" where
  "padStringBeggining str len char =
     (case repeat char (len - int (length str)) of
        Inl e \<Rightarrow> Inl e
      | Inr padding \<Rightarrow> Inr (padding @ str))"

text \<open>
  \<^verbatim>\<open>
  static trimStart(inputString: string, trimString: string): string
  {
      if (inputString.startsWith(trimString))
          return inputString.substring(trimString.length);
      return inputString;
  }
  \<close>
\<close>

definition trimStart :: "'a list \<Rightarrow> 'a list \<Rightarrow> 'a list" where
  "trimStart inputString trimString =
     (if prefix trimString inputString then drop (length trimString) inputString
      else inputString)"

section \<open>Collaborators\<close>

text \<open>
  The class \<open>Path\<close> (\<open>./path\<close>) is used by the functions below but is not part of
  the verified file.  Its operations are taken as parameters: a record of the
  operations the code calls, over an arbitrary type \<open>'p\<close> of path values.
  \<open>newPath\<close> is the constructor \<open>new Path(s)\<close>, \<open>vaultPath\<close> the static
  \<open>Path.vaultPath\<close>, \<open>exists\<close> the state of the disk at the time of the call.
  The operations are total functions: a \<open>Path\<close> operation that throws is outside
  the model.
\<close>

record 'p path_api =
  newPath :: "string \<Rightarrow> 'p"
  asString :: "'p \<Rightarrow> string"
  directory :: "'p \<Rightarrow> 'p"
  absolute :: "'p \<Rightarrow> 'p"
  joinString :: "'p \<Rightarrow> string \<Rightarrow> 'p"
  extension :: "'p \<Rightarrow> string"
  exists :: "'p \<Rightarrow> bool"
  vaultPath :: "'p"

text \<open>
  Electron's dialog module: the options the code passes and the fields of the
  result it reads.  \<open>filePath\<close> may be \<open>undefined\<close> (\<open>None\<close>) or a string.
  What the user does with the dialog is a function from the request to the result.
\<close>

record file_filter =
  name :: string
  extensions :: "string list"

record save_options =
  defaultPath :: string
  filters :: "file_filter list"

record save_result =
  canceled :: bool
  filePath :: "string option"

record open_options =
  openDefaultPath :: string
  properties :: "string list"

record open_result =
  openCanceled :: bool
  filePaths :: "string list"

record dialog_api =
  showSaveDialogNative :: "save_options \<Rightarrow> save_result"
  showOpenDialogNative :: "open_options \<Rightarrow> open_result"

text \<open>
  What an operation does besides returning, in the order of the calls: the notices it
  shows (\<open>new Notice(msg)\<close>), the native dialogs it opens, the progress reports
  (\<open>ExportLog.progress\<close>), the error-log entries (\<open>ExportLog.error\<close>) and the
  calls of the vault adapter (\<open>mkdir\<close>, \<open>write\<close>).
\<close>

datatype event =
    Notice string
  | SaveDialog save_options
  | OpenDialog open_options
  | Progress nat nat string string
  | Mkdir string
  | Write string string
  | LogError string

fun is_dialog :: "event \<Rightarrow> bool" where
  "is_dialog (SaveDialog _) = True"
| "is_dialog (OpenDialog _) = True"
| "is_dialog _ = False"

fun is_notice :: "event \<Rightarrow> bool" where
  "is_notice (Notice _) = True"
| "is_notice _ = False"

fun is_progress :: "event \<Rightarrow> bool" where
  "is_progress (Progress _ _ _ _) = True"
| "is_progress _ = False"

fun is_mkdir :: "event \<Rightarrow> bool" where
  "is_mkdir (Mkdir _) = True"
| "is_mkdir _ = False"

fun is_write :: "event \<Rightarrow> bool" where
  "is_write (Write _ _) = True"
| "is_write _ = False"

fun is_error_log :: "event \<Rightarrow> bool" where
  "is_error_log (LogError _) = True"
| "is_error_log _ = False"

section \<open>The destination pickers\<close>

text \<open>
  The filter list of the save dialog (the source builds it in place, lines 101 to 111).
  \<open>toUpperCase\<close> is the string method of the runtime, a parameter.
\<close>

definition saveFilters :: "(string \<Rightarrow> string) \<Rightarrow> string \<Rightarrow> bool \<Rightarrow> file_filter list" where
  "saveFilters toUpperCase ext showAllFilesOption =
     [\<lparr>name = toUpperCase (trimStart ext ''.'') @ '' Files'',
       extensions = [trimStart ext ''.'']\<rparr>]
     @ (if showAllFilesOption
        then [\<lparr>name = ''All Files'', extensions = [''*'']\<rparr>]
        else [])"

text \<open>
  The specification's wording for the filter name, "the extension with its leading dot
  removed", written out on its own, to be compared with what the source computes.
\<close>

definition leadingDotRemoved :: "string \<Rightarrow> string" where
  "leadingDotRemoved ext =
     (case ext of [] \<Rightarrow> [] | c # cs \<Rightarrow> if c = CHR ''.'' then cs else ext)"

text \<open>
  \<open>showSaveDialog\<close>: the first argument is \<open>Platform.isDesktopApp\<close>.  The result is
  the returned value (\<open>None\<close> for \<open>undefined\<close>) and the events.
\<close>

definition showSaveDialog ::
  "bool \<Rightarrow> 'p path_api \<Rightarrow> (string \<Rightarrow> string) \<Rightarrow> dialog_api \<Rightarrow> 'p \<Rightarrow> string \<Rightarrow> bool
     \<Rightarrow> 'p option \<times> event list" where
  "showSaveDialog isDesktopApp P toUpperCase dialog defaultPath' defaultFileName showAllFilesOption =
     (if isDesktopApp then
        (let absoluteDefaultPath =
               joinString P (absolute P (directory P defaultPath')) defaultFileName;
             opts = \<lparr>defaultPath = asString P absoluteDefaultPath,
                     filters = saveFilters toUpperCase (extension P absoluteDefaultPath)
                                 showAllFilesOption\<rparr>;
             result = showSaveDialogNative dialog opts
         in (case filePath result of
               Some fp \<Rightarrow>
                 if \<not> canceled result \<and> fp \<noteq> [] then (Some (newPath P fp), [SaveDialog opts])
                 else (None, [SaveDialog opts])
             | None \<Rightarrow> (None, [SaveDialog opts])))
      else
        (let exportPath = joinString P (directory P defaultPath') defaultFileName
         in (Some exportPath, [Notice (''Exporting to '' @ asString P exportPath)])))"

definition showSelectFolderDialog ::
  "bool \<Rightarrow> 'p path_api \<Rightarrow> dialog_api \<Rightarrow> 'p \<Rightarrow> 'p option \<times> event list" where
  "showSelectFolderDialog isDesktopApp P dialog defaultPath' =
     (if isDesktopApp then
        (let opts = \<lparr>openDefaultPath = asString P defaultPath',
                     properties = [''openDirectory'']\<rparr>;
             result = showOpenDialogNative dialog opts
         in if \<not> openCanceled result \<and> length (filePaths result) > 0
            then (Some (newPath P (filePaths result ! 0)), [OpenDialog opts])
            else (None, [OpenDialog opts]))
      else
        (Some defaultPath',
         [Notice (''Using default folder: '' @ asString P defaultPath')]))"

definition showSelectFileDialog ::
  "bool \<Rightarrow> 'p path_api \<Rightarrow> dialog_api \<Rightarrow> 'p \<Rightarrow> 'p option \<times> event list" where
  "showSelectFileDialog isDesktopApp P dialog defaultPath' =
     (if isDesktopApp then
        (let opts = \<lparr>openDefaultPath = asString P defaultPath',
                     properties = [''openFile'']\<rparr>;
             result = showOpenDialogNative dialog opts
         in if \<not> openCanceled result \<and> length (filePaths result) > 0
            then (Some (newPath P (filePaths result ! 0)), [OpenDialog opts])
            else (None, [OpenDialog opts]))
      else
        (Some defaultPath',
         [Notice (''Using default file: '' @ asString P defaultPath')]))"

section \<open>The default destination\<close>

text \<open>
  \<open>idealDefaultPath\<close>: the second argument is \<open>Settings.exportPath\<close>.
\<close>

definition idealDefaultPath :: "'p path_api \<Rightarrow> string \<Rightarrow> 'p" where
  "idealDefaultPath P exportPath =
     (let lastPath = newPath P exportPath
      in if asString P lastPath \<noteq> [] \<and> exists P lastPath
         then directory P lastPath
         else vaultPath P)"

section \<open>Batch delivery\<close>

text \<open>
  \<open>Downloadable\<close> (\<open>./downloadable\<close>): the fields \<open>downloadFiles\<close> reads.  The
  content is a string or a \<open>Buffer\<close> (a sequence of bytes).
\<close>

datatype file_content = Text string | Buffer "char list"

record 'p downloadable =
  relativePath :: 'p
  relativeDirectory :: 'p
  content :: file_content
  encoding :: string

text \<open>
  The storage side, external to the function.  A thrown or rejected value is
  represented by its rendering as a string, which is all the \<open>catch\<close> block uses
  (\<open>${error}\<close>).  \<open>adapterMkdir S i path\<close> and \<open>adapterWrite S i path data\<close> are the outcomes of
  the adapter's calls made while artifact \<open>i\<close> is processed: \<open>None\<close> when the
  promise is fulfilled, \<open>Some e\<close> when it is rejected.  The index lets the outcome
  depend on everything that happened before.  \<open>bufferToString\<close> is
  \<open>Buffer.toString(encoding)\<close>, which throws for an unknown encoding.
  \<open>HTMLExportPlugin.plugin\<close> is taken to be set (the code runs inside the loaded
  plugin).
\<close>

record storage =
  adapterMkdir :: "nat \<Rightarrow> string \<Rightarrow> string option"
  adapterWrite :: "nat \<Rightarrow> string \<Rightarrow> string \<Rightarrow> string option"
  bufferToString :: "char list \<Rightarrow> string \<Rightarrow> string + string"

text \<open>
  \<open>typeof file.content === 'string' ? file.content : file.content.toString(file.encoding)\<close>
\<close>

definition contentString :: "storage \<Rightarrow> 'p downloadable \<Rightarrow> string + string" where
  "contentString S file =
     (case content file of
        Text s \<Rightarrow> Inr s
      | Buffer b \<Rightarrow> bufferToString S b (encoding file))"

text \<open>
  The two path strings the \<open>try\<close> block computes:
  \<open>rootPath.joinString(file.relativeDirectory.asString).asString\<close> and
  \<open>rootPath.joinString(file.relativePath.asString).asString\<close>.
\<close>

definition dirPathOf :: "'p path_api \<Rightarrow> 'p \<Rightarrow> 'p downloadable \<Rightarrow> string" where
  "dirPathOf P rootPath file =
     asString P (joinString P rootPath (asString P (relativeDirectory file)))"

definition filePathOf :: "'p path_api \<Rightarrow> 'p \<Rightarrow> 'p downloadable \<Rightarrow> string" where
  "filePathOf P rootPath file =
     asString P (joinString P rootPath (asString P (relativePath file)))"

text \<open>
  The body of the \<open>try\<close> block for the artifact at index \<open>i\<close>: the error it throws,
  if any, and the adapter calls made until then.  The third argument of \<open>write\<close> is
  evaluated before the call, so a failing \<open>toString\<close> leaves no \<open>Write\<close> event.
\<close>

definition tryWrite ::
  "'p path_api \<Rightarrow> storage \<Rightarrow> 'p \<Rightarrow> nat \<Rightarrow> 'p downloadable \<Rightarrow> string option \<times> event list" where
  "tryWrite P S rootPath i file =
     (let dirPath = dirPathOf P rootPath file
      in case adapterMkdir S i dirPath of
           Some e \<Rightarrow> (Some e, [Mkdir dirPath])
         | None \<Rightarrow>
             (let filePath' = filePathOf P rootPath file
              in case contentString S file of
                   Inl e \<Rightarrow> (Some e, [Mkdir dirPath])
                 | Inr data \<Rightarrow>
                     (case adapterWrite S i filePath' data of
                        Some e \<Rightarrow> (Some e, [Mkdir dirPath, Write filePath' data])
                      | None \<Rightarrow> (None, [Mkdir dirPath, Write filePath' data]))))"

text \<open>The \<open>catch\<close> block.\<close>

definition catchWrite :: "'p path_api \<Rightarrow> 'p downloadable \<Rightarrow> string \<Rightarrow> event list" where
  "catchWrite P file error =
     [LogError (''Failed to write file '' @ asString P (relativePath file) @ '': '' @ error),
      Notice (''Failed to write file '' @ asString P (relativePath file))]"

text \<open>\<open>try { ... } catch (error) { ... }\<close> for one artifact.\<close>

definition attempt ::
  "'p path_api \<Rightarrow> storage \<Rightarrow> 'p \<Rightarrow> nat \<Rightarrow> 'p downloadable \<Rightarrow> event list" where
  "attempt P S rootPath i file =
     (case tryWrite P S rootPath i file of
        (None, evs) \<Rightarrow> evs
      | (Some e, evs) \<Rightarrow> evs @ catchWrite P file e)"

text \<open>The progress report that opens the loop body.\<close>

definition progressOf :: "'p path_api \<Rightarrow> 'p downloadable list \<Rightarrow> nat \<Rightarrow> event" where
  "progressOf P files i =
     Progress i (length files) ''Downloading Files''
       (''Downloading: '' @ asString P (relativePath (files ! i)))"

text \<open>
  One pass through the loop body, for the index \<open>i\<close>: \<open>let file = files[i]\<close>,
  the progress report, then the \<open>try\<close>/\<open>catch\<close>.
\<close>

definition iteration ::
  "'p path_api \<Rightarrow> storage \<Rightarrow> 'p downloadable list \<Rightarrow> 'p \<Rightarrow> nat \<Rightarrow> event list" where
  "iteration P S files rootPath i =
     (let file = files ! i
      in progressOf P files i # attempt P S rootPath i file)"

text \<open>
  \<open>for (let i = 0; i < files.length; i++) { ... }\<close>: the loop from index \<open>i\<close> on.
  \<open>files ! i\<close> is read under the guard \<open>i < length files\<close> only.
\<close>

function downloadFilesFrom ::
  "'p path_api \<Rightarrow> storage \<Rightarrow> 'p downloadable list \<Rightarrow> 'p \<Rightarrow> nat \<Rightarrow> event list" where
  "downloadFilesFrom P S files rootPath i =
     (if i < length files
      then iteration P S files rootPath i @ downloadFilesFrom P S files rootPath (i + 1)
      else [])"
  by pat_completeness auto
termination
  by (relation "measure (\<lambda>(P, S, files, rootPath, i). length files - i)") auto

declare downloadFilesFrom.simps [simp del]

text \<open>The \<open>currentIndex\<close> argument of a progress report.\<close>

fun currentIndex :: "event \<Rightarrow> nat" where
  "currentIndex (Progress i _ _ _) = i"
| "currentIndex _ = 0"

definition downloadFiles ::
  "'p path_api \<Rightarrow> storage \<Rightarrow> 'p downloadable list \<Rightarrow> 'p \<Rightarrow> event list" where
  "downloadFiles P S files rootPath = downloadFilesFrom P S files rootPath 0"

section \<open>Waiting for a condition\<close>

text \<open>
  \<open>condition\<close> is a zero-argument function with effects: what it returns can change
  from one call to the next.  It is modelled by the sequence of its answers,
  \<open>condition n\<close> being the answer to call number \<open>n\<close> (call 0 is the one made before
  any waiting, call \<open>n\<close> the one of the \<open>n\<close>-th tick of the interval timer).

  \<open>timeout\<close>, \<open>interval\<close> and the variable \<open>timer\<close> are JavaScript numbers, that is
  IEEE-754 doubles, and the function uses three operations on them: the literal \<open>0\<close>,
  the addition in \<open>timer += interval\<close> and the comparison \<open>timer >= timeout\<close>.  The
  number type \<open>'n\<close> and these three operations are parameters of the model, so that
  what is proved holds for the arithmetic of doubles, with its rounding, its
  infinities and its \<open>NaN\<close>, as for any other.
\<close>

record 'n arith =
  numZero :: 'n
  numAdd :: "'n \<Rightarrow> 'n \<Rightarrow> 'n"
  numGe :: "'n \<Rightarrow> 'n \<Rightarrow> bool"

text \<open>
  The trace lists the evaluations of the condition with their answers, the
  scheduling and the clearing of the interval timer, and the resolution of the
  promise.
\<close>

datatype timer_event = Sample bool | SetInterval | ClearInterval | Resolve bool

text \<open>
  The callback of \<open>setInterval\<close>, run at every tick until the timer is cleared.
  \<open>timer\<close> is the captured variable.  A timer that is never cleared ticks forever:
  the result is \<open>None\<close>.
\<close>

partial_function (option) intervalTicks ::
  "'n arith \<Rightarrow> (nat \<Rightarrow> bool) \<Rightarrow> 'n \<Rightarrow> 'n \<Rightarrow> nat \<Rightarrow> 'n \<Rightarrow> timer_event list
     \<Rightarrow> timer_event list option" where
  "intervalTicks A condition timeout interval n timer trace =
     (if condition n then Some (trace @ [Sample True, ClearInterval, Resolve True])
      else
        (let timer' = numAdd A timer interval
         in if numGe A timer' timeout
            then Some (trace @ [Sample False, ClearInterval, Resolve False])
            else intervalTicks A condition timeout interval (n + 1) timer'
                   (trace @ [Sample False])))"

declare intervalTicks.simps [code]

definition waitUntil ::
  "'n arith \<Rightarrow> (nat \<Rightarrow> bool) \<Rightarrow> 'n \<Rightarrow> 'n \<Rightarrow> timer_event list option" where
  "waitUntil A condition timeout interval =
     (if condition 0 then Some [Sample True, Resolve True]
      else intervalTicks A condition timeout interval 1 (numZero A)
             [Sample False, SetInterval])"

text \<open>
  The accumulated wait time: the value of the variable \<open>timer\<close> after \<open>m\<close> more
  executions of \<open>timer += interval\<close>, as the function's own addition computes it.
\<close>

fun timerAfter :: "'n arith \<Rightarrow> 'n \<Rightarrow> 'n \<Rightarrow> nat \<Rightarrow> 'n" where
  "timerAfter A interval timer 0 = timer"
| "timerAfter A interval timer (Suc m) = timerAfter A interval (numAdd A timer interval) m"

text \<open>
  Whether an interval timer is still scheduled after a trace: \<open>setInterval\<close>
  schedules it, \<open>clearInterval\<close> removes it.
\<close>

definition timerActiveAfter :: "timer_event list \<Rightarrow> bool" where
  "timerActiveAfter tr =
     foldl (\<lambda>active e. case e of SetInterval \<Rightarrow> True | ClearInterval \<Rightarrow> False | _ \<Rightarrow> active)
       False tr"

section \<open>Edit distance\<close>

text \<open>
  A JavaScript array is extended by an assignment at its length; an assignment beyond
  the length would leave holes, and a read at or beyond the length yields
  \<open>undefined\<close>.  The model follows the array operations of the source one by one
  and returns \<open>None\<close> as soon as one of them is a read outside the array or an
  assignment that would leave a hole, so that a result \<open>Some d\<close> says that the
  source computes \<open>d\<close> from defined cells only.
\<close>

definition readAt :: "'a list \<Rightarrow> nat \<Rightarrow> 'a option" where
  "readAt xs k = (if k < length xs then Some (xs ! k) else None)"

definition writeAt :: "'a list \<Rightarrow> nat \<Rightarrow> 'a \<Rightarrow> 'a list option" where
  "writeAt xs k v =
     (if k < length xs then Some (xs[k := v])
      else if k = length xs then Some (xs @ [v])
      else None)"

text \<open>\<open>arr[i][j]\<close>\<close>

definition readCell :: "nat list list \<Rightarrow> nat \<Rightarrow> nat \<Rightarrow> nat option" where
  "readCell arr i j = do { row \<leftarrow> readAt arr i; readAt row j }"

text \<open>
  The right-hand side of the assignment to \<open>arr[i][j]\<close>:
  \<^verbatim>\<open>
  i === 0 ? j
    : Math.min(arr[i - 1][j] + 1, arr[i][j - 1] + 1,
               arr[i - 1][j - 1] + (string1[j - 1] === string2[i - 1] ? 0 : 1))
  \<close>
\<close>

definition cellValue :: "'a list \<Rightarrow> 'a list \<Rightarrow> nat list list \<Rightarrow> nat \<Rightarrow> nat \<Rightarrow> nat option" where
  "cellValue string1 string2 arr i j =
     (if i = 0 then Some j
      else do {
        up \<leftarrow> readCell arr (i - 1) j;
        left \<leftarrow> readCell arr i (j - 1);
        diag \<leftarrow> readCell arr (i - 1) (j - 1);
        c1 \<leftarrow> readAt string1 (j - 1);
        c2 \<leftarrow> readAt string2 (i - 1);
        Some (min (up + 1) (min (left + 1) (diag + (if c1 = c2 then 0 else 1))))
      })"

text \<open>
  The inner loop \<open>for (let j = 1; j <= string1.length; j++)\<close> from \<open>j\<close> on; its body
  assigns \<open>arr[i][j]\<close>.
\<close>

function levRow :: "'a list \<Rightarrow> 'a list \<Rightarrow> nat list list \<Rightarrow> nat \<Rightarrow> nat \<Rightarrow> nat list list option" where
  "levRow string1 string2 arr i j =
     (if j \<le> length string1 then
        do {
          v \<leftarrow> cellValue string1 string2 arr i j;
          row \<leftarrow> readAt arr i;
          row' \<leftarrow> writeAt row j v;
          arr' \<leftarrow> writeAt arr i row';
          levRow string1 string2 arr' i (j + 1)
        }
      else Some arr)"
  by pat_completeness auto
termination
  by (relation "measure (\<lambda>(string1, string2, arr, i, j). length string1 + 1 - j)") auto

declare levRow.simps [simp del]

text \<open>
  The outer loop \<open>for (let i = 0; i <= string2.length; i++)\<close> from \<open>i\<close> on; its body
  assigns \<open>arr[i] = [i]\<close> and runs the inner loop.
\<close>

function levRows :: "'a list \<Rightarrow> 'a list \<Rightarrow> nat list list \<Rightarrow> nat \<Rightarrow> nat list list option" where
  "levRows string1 string2 arr i =
     (if i \<le> length string2 then
        do {
          arr1 \<leftarrow> writeAt arr i [i];
          arr2 \<leftarrow> levRow string1 string2 arr1 i 1;
          levRows string1 string2 arr2 (i + 1)
        }
      else Some arr)"
  by pat_completeness auto
termination
  by (relation "measure (\<lambda>(string1, string2, arr, i). length string2 + 1 - i)") auto

declare levRows.simps [simp del]

definition levenshteinDistance :: "'a list \<Rightarrow> 'a list \<Rightarrow> nat option" where
  "levenshteinDistance string1 string2 =
     (if length string1 = 0 then Some (length string2)
      else if length string2 = 0 then Some (length string1)
      else do {
        arr \<leftarrow> levRows string1 string2 [] 0;
        readCell arr (length string2) (length string1)
      })"

subsection \<open>The reference: fewest single-character edits\<close>

text \<open>
  One edit inserts a character at some position, deletes the character at some
  position, or replaces the character at some position.
\<close>

inductive single_edit :: "'a list \<Rightarrow> 'a list \<Rightarrow> bool" where
  insertion: "single_edit (u @ v) (u @ c # v)"
| deletion: "single_edit (u @ c # v) (u @ v)"
| substitution: "single_edit (u @ c # v) (u @ d # v)"

text \<open>\<open>transforms n a b\<close>: some sequence of \<open>n\<close> edits turns \<open>a\<close> into \<open>b\<close>.\<close>

definition transforms :: "nat \<Rightarrow> 'a list \<Rightarrow> 'a list \<Rightarrow> bool" where
  "transforms n a b = (single_edit ^^ n) a b"

text \<open>\<open>d\<close> is the edit distance of \<open>a\<close> and \<open>b\<close>: \<open>d\<close> edits suffice and no fewer do.\<close>

definition is_edit_distance :: "'a list \<Rightarrow> 'a list \<Rightarrow> nat \<Rightarrow> bool" where
  "is_edit_distance a b d = (transforms d a b \<and> (\<forall>n. transforms n a b \<longrightarrow> d \<le> n))"

text \<open>
  The same edits described from the head of the list, and the textbook recursion
  for the distance: both are tools of the proof.
\<close>

inductive head_edit :: "'a list \<Rightarrow> 'a list \<Rightarrow> bool" where
  ins: "head_edit xs (c # xs)"
| del: "head_edit (c # xs) xs"
| sub: "head_edit (c # xs) (d # xs)"
| tail: "head_edit xs ys \<Longrightarrow> head_edit (c # xs) (c # ys)"

fun lev :: "'a list \<Rightarrow> 'a list \<Rightarrow> nat" where
  "lev [] ys = length ys"
| "lev xs [] = length xs"
| "lev (x # xs) (y # ys) =
     min (lev (x # xs) ys + 1) (min (lev xs (y # ys) + 1) (lev xs ys + (if x = y then 0 else 1)))"

text \<open>
  The table the loops build: the cell in row \<open>i\<close> and column \<open>j\<close> holds the distance
  between the first \<open>j\<close> characters of \<open>string1\<close> and the first \<open>i\<close> characters of
  \<open>string2\<close> (the recursion runs over the reversed prefixes, whose heads are the
  characters the source compares).  \<open>tableRow s1 s2 i n\<close> is the first \<open>n\<close> cells of
  row \<open>i\<close>, \<open>tableRows s1 s2 i\<close> the first \<open>i\<close> complete rows.
\<close>

definition cell :: "'a list \<Rightarrow> 'a list \<Rightarrow> nat \<Rightarrow> nat \<Rightarrow> nat" where
  "cell s1 s2 i j = lev (rev (take j s1)) (rev (take i s2))"

definition tableRow :: "'a list \<Rightarrow> 'a list \<Rightarrow> nat \<Rightarrow> nat \<Rightarrow> nat list" where
  "tableRow s1 s2 i n = map (cell s1 s2 i) [0..<n]"

definition tableRows :: "'a list \<Rightarrow> 'a list \<Rightarrow> nat \<Rightarrow> nat list list" where
  "tableRows s1 s2 i = map (\<lambda>i'. tableRow s1 s2 i' (Suc (length s1))) [0..<i]"

section \<open>Concrete collaborators for evaluation\<close>

text \<open>
  Modelled from the spec: the class \<open>Path\<close> is not under the verified sources.  The
  spec (section 3) describes it as an abstract filesystem location, decomposed into
  directory and leaf name, with derived operations (join, absolute form, existence
  check, extension).  The instance below reads a path as its slash-separated string;
  \<open>disk\<close> lists the paths that exist.  It serves to run the functions on concrete
  inputs; the theorems hold for every \<open>path_api\<close>.
\<close>

definition leafName :: "string \<Rightarrow> string" where
  "leafName p = rev (takeWhile (\<lambda>c. c \<noteq> CHR ''/'') (rev p))"

definition simplePath :: "string list \<Rightarrow> string path_api" where
  "simplePath disk =
     \<lparr>newPath = (\<lambda>s. s),
      asString = (\<lambda>p. p),
      directory = (\<lambda>p. rev (drop 1 (dropWhile (\<lambda>c. c \<noteq> CHR ''/'') (rev p)))),
      absolute = (\<lambda>p. p),
      joinString = (\<lambda>p s. p @ ''/'' @ s),
      extension = (\<lambda>p. if CHR ''.'' \<in> set (leafName p)
                        then CHR ''.'' # rev (takeWhile (\<lambda>c. c \<noteq> CHR ''.'') (rev (leafName p)))
                        else []),
      exists = (\<lambda>p. p \<in> set disk),
      vaultPath = ''/vault''\<rparr>"

text \<open>\<open>toUpperCase\<close> on the letters a to z; other characters are kept.\<close>

definition asciiUpper :: "string \<Rightarrow> string" where
  "asciiUpper s =
     map (\<lambda>c. case map_of (zip ''abcdefghijklmnopqrstuvwxyz'' ''ABCDEFGHIJKLMNOPQRSTUVWXYZ'') c of
                None \<Rightarrow> c
              | Some u \<Rightarrow> u) s"

text \<open>
  The arithmetic of whole numbers of milliseconds.  On whole numbers of absolute
  value up to \<open>2\<^sup>5\<^sup>3\<close> the addition and the comparison of doubles are exact, so
  this is what the function computes on the small values used in the examples.
\<close>

definition wholeNumbers :: "int arith" where
  "wholeNumbers = \<lparr>numZero = 0, numAdd = (+), numGe = (\<lambda>a b. a \<ge> b)\<rparr>"

text \<open>A user who cancels every dialog, and one who confirms a fixed choice.\<close>

definition cancelDialog :: dialog_api where
  "cancelDialog =
     \<lparr>showSaveDialogNative = (\<lambda>opts. \<lparr>canceled = True, filePath = Some []\<rparr>),
      showOpenDialogNative = (\<lambda>opts. \<lparr>openCanceled = True, filePaths = []\<rparr>)\<rparr>"

definition chooseDialog :: "string \<Rightarrow> dialog_api" where
  "chooseDialog choice =
     \<lparr>showSaveDialogNative = (\<lambda>opts. \<lparr>canceled = False, filePath = Some choice\<rparr>),
      showOpenDialogNative = (\<lambda>opts. \<lparr>openCanceled = False, filePaths = [choice]\<rparr>)\<rparr>"

text \<open>
  A storage whose \<open>write\<close> is rejected with \<open>err\<close> for the artifact at index \<open>k\<close> and
  fulfilled for every other one.
\<close>

definition failingAt :: "nat \<Rightarrow> string \<Rightarrow> storage" where
  "failingAt k err =
     \<lparr>adapterMkdir = (\<lambda>i path. None),
      adapterWrite = (\<lambda>i path data. if i = k then Some err else None),
      bufferToString = (\<lambda>b enc. Inr b)\<rparr>"

text \<open>
  A storage whose \<open>mkdir\<close> is rejected with \<open>err\<close> for the artifact at index \<open>k\<close>,
  and one whose \<open>Buffer.toString\<close> throws \<open>err\<close> for the encoding \<open>enc\<close>; every
  other call succeeds.
\<close>

definition mkdirFailingAt :: "nat \<Rightarrow> string \<Rightarrow> storage" where
  "mkdirFailingAt k err =
     \<lparr>adapterMkdir = (\<lambda>i path. if i = k then Some err else None),
      adapterWrite = (\<lambda>i path data. None),
      bufferToString = (\<lambda>b enc. Inr b)\<rparr>"

definition unknownEncoding :: "string \<Rightarrow> string \<Rightarrow> storage" where
  "unknownEncoding enc err =
     \<lparr>adapterMkdir = (\<lambda>i path. None),
      adapterWrite = (\<lambda>i path data. None),
      bufferToString = (\<lambda>b e. if e = enc then Inl err else Inr b)\<rparr>"

definition exampleFiles :: "string downloadable list" where
  "exampleFiles =
     [\<lparr>relativePath = ''a/x.html'', relativeDirectory = ''a'',
       content = Text ''X'', encoding = ''utf8''\<rparr>,
      \<lparr>relativePath = ''b/y.html'', relativeDirectory = ''b'',
       content = Text ''Y'', encoding = ''utf8''\<rparr>,
      \<lparr>relativePath = ''c/z.css'', relativeDirectory = ''c'',
       content = Buffer ''Z'', encoding = ''latin1''\<rparr>]"

section \<open>Properties: padding\<close>

text \<open>
  Claim C10.  When the target length is at least the length of \<open>str\<close>,
  \<open>padStringBeggining\<close> does not throw; its result is \<open>str\<close> preceded by
  \<open>length - str.length\<close> copies of \<open>char\<close>, it ends with \<open>str\<close>, and when \<open>char\<close> is a
  single character its length is exactly the target length.  When the target length
  is smaller than the length of \<open>str\<close>, the call throws the \<open>RangeError\<close> of
  \<open>repeat\<close>.
\<close>

theorem padStringBeggining_pads:
  "(int (length str) \<le> len \<longrightarrow>
      (\<exists>r. padStringBeggining str len char = Inr r
         \<and> r = concat (replicate (nat (len - int (length str))) char) @ str
         \<and> suffix str r
         \<and> (length char = 1 \<longrightarrow> int (length r) = len)))
   \<and> (len < int (length str) \<longrightarrow> padStringBeggining str len char = Inl RangeError)"
  by (auto simp: padStringBeggining_def repeat_def length_concat sum_list_replicate suffix_def)

theorem padStringBeggining_pads_witness:
  "padStringBeggining ''a'' 2 ''0'' = Inr ''0a''
   \<and> int (length ''0a'') = 2
   \<and> padStringBeggining ''abc'' 2 ''0'' = Inl RangeError"
  using padStringBeggining_pads [of "''a''" 2 "''0''"]
    padStringBeggining_pads [of "''abc''" 2 "''0''"]
  by (simp add: numeral_eq_Suc)

section \<open>Properties: the default destination\<close>

text \<open>
  Claim C3.  \<open>idealDefaultPath\<close> returns the directory of the last-used path when the
  string of that path is not empty and the path exists, and the vault path
  otherwise; so its result is always one of the two, and, when the two differ, it is
  the directory exactly when the path is non-empty and exists.  The function is
  total and its only inputs are the stored string and the path operations.
\<close>

theorem idealDefaultPath_cases:
  "(asString P (newPath P exportPath) \<noteq> [] \<and> exists P (newPath P exportPath)
      \<longrightarrow> idealDefaultPath P exportPath = directory P (newPath P exportPath))
   \<and> (\<not> (asString P (newPath P exportPath) \<noteq> [] \<and> exists P (newPath P exportPath))
      \<longrightarrow> idealDefaultPath P exportPath = vaultPath P)
   \<and> (idealDefaultPath P exportPath = directory P (newPath P exportPath)
      \<or> idealDefaultPath P exportPath = vaultPath P)
   \<and> (directory P (newPath P exportPath) \<noteq> vaultPath P \<longrightarrow>
        (idealDefaultPath P exportPath = directory P (newPath P exportPath)
         \<longleftrightarrow> asString P (newPath P exportPath) \<noteq> [] \<and> exists P (newPath P exportPath)))"
  by (auto simp: idealDefaultPath_def Let_def)

theorem idealDefaultPath_cases_witness:
  "idealDefaultPath (simplePath [''/vault/out/site.html'']) ''/vault/out/site.html'' = ''/vault/out''
   \<and> idealDefaultPath (simplePath []) ''/vault/out/site.html'' = ''/vault''
   \<and> idealDefaultPath (simplePath []) [] = ''/vault''"
  using idealDefaultPath_cases [of "simplePath [''/vault/out/site.html'']" "''/vault/out/site.html''"]
    idealDefaultPath_cases [of "simplePath []" "''/vault/out/site.html''"]
    idealDefaultPath_cases [of "simplePath []" "[]"]
  by (simp add: simplePath_def)

section \<open>Properties: the destination pickers\<close>

lemma trimStart_dot: "trimStart ext ''.'' = leadingDotRemoved ext"
  by (cases ext) (auto simp: trimStart_def leadingDotRemoved_def)

text \<open>
  Claim C8.  On the desktop, \<open>showSaveDialog\<close> opens the save dialog once.  The first
  filter it passes is named by the upper-cased extension of the target, without its
  leading dot, followed by " Files", and lists that dotless extension; what follows
  the first filter is the single filter "All Files" / "*" when the all-files option
  is on and nothing when it is off.  The target is the absolute directory of the
  default path joined with the default file name.
\<close>

theorem showSaveDialog_filters:
  "\<exists>opts. snd (showSaveDialog True P toUpperCase dialog dp fileName showAll) = [SaveDialog opts]
     \<and> defaultPath opts = asString P (joinString P (absolute P (directory P dp)) fileName)
     \<and> filters opts \<noteq> []
     \<and> name (hd (filters opts)) =
          toUpperCase (leadingDotRemoved
            (extension P (joinString P (absolute P (directory P dp)) fileName))) @ '' Files''
     \<and> extensions (hd (filters opts)) =
          [leadingDotRemoved (extension P (joinString P (absolute P (directory P dp)) fileName))]
     \<and> tl (filters opts) =
          (if showAll then [\<lparr>name = ''All Files'', extensions = [''*'']\<rparr>] else [])"
  by (simp add: showSaveDialog_def Let_def saveFilters_def trimStart_dot split: option.split)

text \<open>The filters on a concrete request, with a user who confirms a choice.\<close>

lemma showSaveDialog_example:
  "showSaveDialog True (simplePath []) asciiUpper (chooseDialog ''/home/u/site.html'')
     ''/vault/out/old.html'' ''index.html'' True
   = (Some ''/home/u/site.html'',
      [SaveDialog \<lparr>defaultPath = ''/vault/out/index.html'',
         filters = [\<lparr>name = ''HTML Files'', extensions = [''html'']\<rparr>,
                    \<lparr>name = ''All Files'', extensions = [''*'']\<rparr>]\<rparr>])"
  by (simp add: showSaveDialog_def simplePath_def chooseDialog_def saveFilters_def
      trimStart_def asciiUpper_def leafName_def Let_def)

text \<open>
  Claim C7.  On the desktop, when the user cancels the dialog that a picker opens,
  the picker returns no path (\<open>undefined\<close>); the result of a picker is a path or
  absent, never an exception.
\<close>

theorem pickers_cancel:
  "(\<forall>opts. SaveDialog opts \<in> set (snd (showSaveDialog True P toUpperCase dialog dp fileName showAll))
        \<and> canceled (showSaveDialogNative dialog opts)
      \<longrightarrow> fst (showSaveDialog True P toUpperCase dialog dp fileName showAll) = None)
   \<and> (\<forall>opts. OpenDialog opts \<in> set (snd (showSelectFolderDialog True P dialog dp))
        \<and> openCanceled (showOpenDialogNative dialog opts)
      \<longrightarrow> fst (showSelectFolderDialog True P dialog dp) = None)
   \<and> (\<forall>opts. OpenDialog opts \<in> set (snd (showSelectFileDialog True P dialog dp))
        \<and> openCanceled (showOpenDialogNative dialog opts)
      \<longrightarrow> fst (showSelectFileDialog True P dialog dp) = None)"
  by (auto simp: showSaveDialog_def showSelectFolderDialog_def showSelectFileDialog_def Let_def
      split: option.splits if_splits)

theorem pickers_cancel_witness:
  "fst (showSaveDialog True (simplePath []) asciiUpper cancelDialog
          ''/vault/out/old.html'' ''index.html'' True) = None
   \<and> fst (showSelectFolderDialog True (simplePath []) cancelDialog ''/vault/out/old.html'') = None
   \<and> fst (showSelectFileDialog True (simplePath []) cancelDialog ''/vault/out/old.html'') = None"
  using pickers_cancel [where P = "simplePath []" and toUpperCase = asciiUpper
      and dialog = cancelDialog and dp = "''/vault/out/old.html''"
      and fileName = "''index.html''" and showAll = True]
  by (simp add: showSaveDialog_def showSelectFolderDialog_def showSelectFileDialog_def
      Let_def cancelDialog_def)

text \<open>
  Claim C4, as the code has it.  Without a native dialog, the folder picker and the
  file picker return the default path they were given, and the save picker returns
  the directory of the default path joined with the default file name.  Each shows
  one notice naming that path, the result does not depend on the dialog
  collaborator, and no dialog is opened.
\<close>

theorem managed_pickers:
  "showSaveDialog False P toUpperCase dialog dp fileName showAll =
     (Some (joinString P (directory P dp) fileName),
      [Notice (''Exporting to '' @ asString P (joinString P (directory P dp) fileName))])
   \<and> showSelectFolderDialog False P dialog dp =
       (Some dp, [Notice (''Using default folder: '' @ asString P dp)])
   \<and> showSelectFileDialog False P dialog dp =
       (Some dp, [Notice (''Using default file: '' @ asString P dp)])
   \<and> showSaveDialog False P toUpperCase dialog dp fileName showAll
       = showSaveDialog False P toUpperCase dialog' dp fileName showAll
   \<and> showSelectFolderDialog False P dialog dp = showSelectFolderDialog False P dialog' dp
   \<and> showSelectFileDialog False P dialog dp = showSelectFileDialog False P dialog' dp
   \<and> filter is_dialog (snd (showSaveDialog False P toUpperCase dialog dp fileName showAll)) = []
   \<and> filter is_dialog (snd (showSelectFolderDialog False P dialog dp)) = []
   \<and> filter is_dialog (snd (showSelectFileDialog False P dialog dp)) = []"
  by (simp add: showSaveDialog_def showSelectFolderDialog_def showSelectFileDialog_def Let_def)

text \<open>
  The claim as stated fails for the save picker: with the default path
  \<open>/vault/out/old.html\<close> and the default file name \<open>index.html\<close> it returns
  \<open>/vault/out/index.html\<close>, not the default path.
\<close>

theorem managed_save_not_default:
  "fst (showSaveDialog False (simplePath []) asciiUpper cancelDialog
          ''/vault/out/old.html'' ''index.html'' True) \<noteq> Some ''/vault/out/old.html''"
  by (simp add: showSaveDialog_def simplePath_def Let_def)

section \<open>Properties: batch delivery\<close>

lemma downloadFilesFrom_concat:
  "downloadFilesFrom P S files rootPath i =
     concat (map (iteration P S files rootPath) [i..<length files])"
proof (induction P S files rootPath i rule: downloadFilesFrom.induct)
  case (1 P S files rootPath i)
  show ?case
  proof (cases "i < length files")
    case True
    then have upt: "[i..<length files] = i # [i + 1..<length files]"
      by (simp add: upt_conv_Cons)
    have "downloadFilesFrom P S files rootPath i =
        iteration P S files rootPath i @ downloadFilesFrom P S files rootPath (i + 1)"
      using True by (simp add: downloadFilesFrom.simps [of P S files rootPath i])
    also have "downloadFilesFrom P S files rootPath (i + 1) =
        concat (map (iteration P S files rootPath) [i + 1..<length files])"
      using True by (rule "1.IH")
    finally show ?thesis
      by (simp only: upt list.map concat.simps)
  next
    case False
    then show ?thesis
      by (subst downloadFilesFrom.simps) simp
  qed
qed

lemma downloadFiles_concat:
  "downloadFiles P S files rootPath =
     concat (map (iteration P S files rootPath) [0..<length files])"
  unfolding downloadFiles_def by (rule downloadFilesFrom_concat)

lemma attempt_no_progress: "filter is_progress (attempt P S rootPath i file) = []"
  by (simp add: attempt_def tryWrite_def catchWrite_def Let_def split: option.split sum.split)

lemma is_progress_progressOf: "is_progress (progressOf P files i)"
  by (simp add: progressOf_def)

lemma filter_concat_map: "filter p (concat (map f xs)) = concat (map (\<lambda>x. filter p (f x)) xs)"
  by (induction xs) simp_all

lemma concat_map_singleton: "concat (map (\<lambda>x. [g x]) xs) = map g xs"
  by (induction xs) simp_all

lemma concat_map_cong:
  "(\<And>x. x \<in> set xs \<Longrightarrow> f x = g x) \<Longrightarrow> concat (map f xs) = concat (map g xs)"
  by (induction xs) simp_all

lemma concat_map_none: "(\<And>i. i \<in> set xs \<Longrightarrow> f i = []) \<Longrightarrow> concat (map f xs) = []"
  by (induction xs) simp_all

lemma upt_split:
  assumes "k < n"
  shows "[0..<n] = [0..<k] @ k # [Suc k..<n]"
proof -
  have "k + (n - k) = n"
    using assms by simp
  then have "[0..<n] = [0..<k] @ [k..<n]"
    using upt_add_eq_append [of 0 k "n - k"] by (simp only: le0)
  also have "[k..<n] = k # [Suc k..<n]"
    using assms by (rule upt_conv_Cons)
  finally show ?thesis .
qed

lemma concat_map_only:
  assumes "k < n"
  shows "concat (map (\<lambda>i. if i = k then [x] else []) [0..<n]) = [x]"
proof -
  have a: "concat (map (\<lambda>i. if i = k then [x] else []) [0..<k]) = []"
    by (rule concat_map_none) simp
  have b: "concat (map (\<lambda>i. if i = k then [x] else []) [Suc k..<n]) = []"
    by (rule concat_map_none) simp
  show ?thesis
    by (simp only: upt_split [OF assms] map_append concat_append list.map concat.simps a b)
      simp
qed

lemma exampleFiles_nth:
  "exampleFiles ! 0 = \<lparr>relativePath = ''a/x.html'', relativeDirectory = ''a'',
       content = Text ''X'', encoding = ''utf8''\<rparr>"
  "exampleFiles ! Suc 0 = \<lparr>relativePath = ''b/y.html'', relativeDirectory = ''b'',
       content = Text ''Y'', encoding = ''utf8''\<rparr>"
  "exampleFiles ! Suc (Suc 0) = \<lparr>relativePath = ''c/z.css'', relativeDirectory = ''c'',
       content = Buffer ''Z'', encoding = ''latin1''\<rparr>"
  "length exampleFiles = Suc (Suc (Suc 0))"
  by (simp_all add: exampleFiles_def)

lemma progress_filter:
  "filter is_progress (downloadFiles P S files rootPath) =
     map (progressOf P files) [0..<length files]"
  by (simp add: downloadFiles_concat filter_concat_map iteration_def attempt_no_progress
      is_progress_progressOf concat_map_singleton)

text \<open>
  Claim C2.  \<open>downloadFiles\<close> makes one progress report per artifact, with the
  indices \<open>0, 1, ..., N - 1\<close> in this order.  For every artifact \<open>i\<close> the trace is
  the passes for the artifacts before \<open>i\<close>, then the progress report of \<open>i\<close>, then
  the \<open>try\<close>/\<open>catch\<close> of \<open>i\<close> with its write, then the passes for the artifacts
  after \<open>i\<close>; the \<open>try\<close>/\<open>catch\<close> itself reports no progress.
\<close>

theorem downloadFiles_progress:
  "filter is_progress (downloadFiles P S files rootPath)
     = map (progressOf P files) [0..<length files]
   \<and> map currentIndex (filter is_progress (downloadFiles P S files rootPath))
     = [0..<length files]
   \<and> (\<forall>i<length files.
        downloadFiles P S files rootPath =
          concat (map (iteration P S files rootPath) [0..<i])
          @ progressOf P files i # attempt P S rootPath i (files ! i)
          @ concat (map (iteration P S files rootPath) [Suc i..<length files])
        \<and> filter is_progress (attempt P S rootPath i (files ! i)) = [])"
proof (intro conjI allI impI)
  show "filter is_progress (downloadFiles P S files rootPath)
      = map (progressOf P files) [0..<length files]"
    by (rule progress_filter)
  show "map currentIndex (filter is_progress (downloadFiles P S files rootPath))
      = [0..<length files]"
    by (simp add: progress_filter progressOf_def map_idI)
next
  fix i assume "i < length files"
  then have "[0..<length files] = [0..<i] @ i # [Suc i..<length files]"
    by (rule upt_split)
  then show "downloadFiles P S files rootPath =
          concat (map (iteration P S files rootPath) [0..<i])
          @ progressOf P files i # attempt P S rootPath i (files ! i)
          @ concat (map (iteration P S files rootPath) [Suc i..<length files])"
    by (simp add: downloadFiles_concat iteration_def)
  show "filter is_progress (attempt P S rootPath i (files ! i)) = []"
    by (rule attempt_no_progress)
qed

theorem downloadFiles_progress_witness:
  "map currentIndex (filter is_progress
       (downloadFiles (simplePath []) (failingAt 1 ''EACCES'') exampleFiles ''/out'')) = [0, 1, 2]
   \<and> downloadFiles (simplePath []) (failingAt 1 ''EACCES'') exampleFiles ''/out'' =
       [Progress 0 3 ''Downloading Files'' ''Downloading: a/x.html'',
        Mkdir ''/out/a'', Write ''/out/a/x.html'' ''X'',
        Progress 1 3 ''Downloading Files'' ''Downloading: b/y.html'',
        Mkdir ''/out/b'', Write ''/out/b/y.html'' ''Y'',
        LogError ''Failed to write file b/y.html: EACCES'',
        Notice ''Failed to write file b/y.html'',
        Progress 2 3 ''Downloading Files'' ''Downloading: c/z.css'',
        Mkdir ''/out/c'', Write ''/out/c/z.css'' ''Z'']"
proof -
  have h: "Suc 0 < length exampleFiles"
    by (simp add: exampleFiles_nth)
  note t = downloadFiles_progress [of "simplePath []" "failingAt 1 ''EACCES''" exampleFiles "''/out''"]
  from t [THEN conjunct2, THEN conjunct1] have a: "map currentIndex (filter is_progress
       (downloadFiles (simplePath []) (failingAt 1 ''EACCES'') exampleFiles ''/out'')) = [0, 1, 2]"
    by (simp add: exampleFiles_nth numeral_2_eq_2)
  from t [THEN conjunct2, THEN conjunct2, rule_format, OF h]
  have b: "downloadFiles (simplePath []) (failingAt 1 ''EACCES'') exampleFiles ''/out'' =
       [Progress 0 3 ''Downloading Files'' ''Downloading: a/x.html'',
        Mkdir ''/out/a'', Write ''/out/a/x.html'' ''X'',
        Progress 1 3 ''Downloading Files'' ''Downloading: b/y.html'',
        Mkdir ''/out/b'', Write ''/out/b/y.html'' ''Y'',
        LogError ''Failed to write file b/y.html: EACCES'',
        Notice ''Failed to write file b/y.html'',
        Progress 2 3 ''Downloading Files'' ''Downloading: c/z.css'',
        Mkdir ''/out/c'', Write ''/out/c/z.css'' ''Z'']"
    by (simp add: exampleFiles_nth iteration_def progressOf_def attempt_def tryWrite_def
        catchWrite_def contentString_def failingAt_def simplePath_def dirPathOf_def
        filePathOf_def Let_def)
  from a b show ?thesis by simp
qed

lemma concat_map_if:
  "concat (map (\<lambda>i. if c i then [g i] else []) xs) = map g (filter c xs)"
  by (induction xs) simp_all

text \<open>
  Claim C1.  Let the delivery of artifact \<open>k\<close> fail with \<open>err\<close>, at any of the three
  places where the \<open>try\<close> block can fail (the directory creation is rejected, the
  content conversion throws, or the write is rejected), while every step succeeds for
  every other artifact.  Then \<open>downloadFiles\<close> starts the delivery of each artifact
  exactly once, in list order (one \<open>mkdir\<close> call per artifact); it calls \<open>write\<close>
  exactly once, in list order, for every other artifact and, when the failure of \<open>k\<close>
  is the rejected write itself, for \<open>k\<close> too, so that the artifacts after \<open>k\<close> are
  written and \<open>k\<close> is not tried again; and it makes exactly one error-log entry and
  shows exactly one notice, both naming the relative path of artifact \<open>k\<close>.
\<close>

theorem downloadFiles_isolates_failure:
  assumes k: "k < length files"
    and others: "\<forall>i<length files. i \<noteq> k \<longrightarrow>
        adapterMkdir S i (dirPathOf P rootPath (files ! i)) = None
        \<and> contentString S (files ! i) = Inr (data i)
        \<and> adapterWrite S i (filePathOf P rootPath (files ! i)) (data i) = None"
    and fails: "adapterMkdir S k (dirPathOf P rootPath (files ! k)) = Some err
        \<or> (adapterMkdir S k (dirPathOf P rootPath (files ! k)) = None
            \<and> contentString S (files ! k) = Inl err)
        \<or> (adapterMkdir S k (dirPathOf P rootPath (files ! k)) = None
            \<and> contentString S (files ! k) = Inr (data k)
            \<and> adapterWrite S k (filePathOf P rootPath (files ! k)) (data k) = Some err)"
  shows "filter is_mkdir (downloadFiles P S files rootPath)
           = map (\<lambda>i. Mkdir (dirPathOf P rootPath (files ! i))) [0..<length files]
       \<and> filter is_write (downloadFiles P S files rootPath)
           = map (\<lambda>i. Write (filePathOf P rootPath (files ! i)) (data i))
               (filter (\<lambda>i. i \<noteq> k
                    \<or> (adapterMkdir S k (dirPathOf P rootPath (files ! k)) = None
                        \<and> contentString S (files ! k) = Inr (data k)))
                  [0..<length files])
       \<and> filter is_error_log (downloadFiles P S files rootPath)
           = [LogError (''Failed to write file '' @ asString P (relativePath (files ! k))
                @ '': '' @ err)]
       \<and> filter is_notice (downloadFiles P S files rootPath)
           = [Notice (''Failed to write file '' @ asString P (relativePath (files ! k)))]"
proof -
  let ?reached = "adapterMkdir S k (dirPathOf P rootPath (files ! k)) = None
      \<and> contentString S (files ! k) = Inr (data k)"
  have att_k: "attempt P S rootPath k (files ! k) =
      Mkdir (dirPathOf P rootPath (files ! k))
      # (if ?reached then [Write (filePathOf P rootPath (files ! k)) (data k)] else [])
      @ catchWrite P (files ! k) err"
    using fails by (auto simp: attempt_def tryWrite_def Let_def)
  have att: "attempt P S rootPath i (files ! i) =
      Mkdir (dirPathOf P rootPath (files ! i))
      # (if i \<noteq> k \<or> ?reached then [Write (filePathOf P rootPath (files ! i)) (data i)] else [])
      @ (if i = k then catchWrite P (files ! k) err else [])" if "i < length files" for i
  proof (cases "i = k")
    case True
    then show ?thesis using att_k by simp
  next
    case False
    with that others show ?thesis
      by (simp add: attempt_def tryWrite_def Let_def)
  qed
  have m: "concat (map (\<lambda>i. filter is_mkdir (iteration P S files rootPath i)) [0..<length files])
      = concat (map (\<lambda>i. [Mkdir (dirPathOf P rootPath (files ! i))]) [0..<length files])"
    by (rule concat_map_cong) (simp add: iteration_def att progressOf_def catchWrite_def)
  have w: "concat (map (\<lambda>i. filter is_write (iteration P S files rootPath i)) [0..<length files])
      = concat (map (\<lambda>i. if i \<noteq> k \<or> ?reached
          then [Write (filePathOf P rootPath (files ! i)) (data i)] else [])
          [0..<length files])"
    by (rule concat_map_cong) (simp add: iteration_def att progressOf_def catchWrite_def)
  have e: "concat (map (\<lambda>i. filter is_error_log (iteration P S files rootPath i))
        [0..<length files])
      = concat (map (\<lambda>i. if i = k
          then [LogError (''Failed to write file '' @ asString P (relativePath (files ! k))
                  @ '': '' @ err)]
          else []) [0..<length files])"
    by (rule concat_map_cong) (simp add: iteration_def att progressOf_def catchWrite_def)
  have n: "concat (map (\<lambda>i. filter is_notice (iteration P S files rootPath i))
        [0..<length files])
      = concat (map (\<lambda>i. if i = k
          then [Notice (''Failed to write file '' @ asString P (relativePath (files ! k)))]
          else []) [0..<length files])"
    by (rule concat_map_cong) (simp add: iteration_def att progressOf_def catchWrite_def)
  have "filter is_mkdir (downloadFiles P S files rootPath)
      = map (\<lambda>i. Mkdir (dirPathOf P rootPath (files ! i))) [0..<length files]"
    by (simp only: downloadFiles_concat filter_concat_map m concat_map_singleton)
  moreover have "filter is_write (downloadFiles P S files rootPath)
      = map (\<lambda>i. Write (filePathOf P rootPath (files ! i)) (data i))
          (filter (\<lambda>i. i \<noteq> k \<or> ?reached) [0..<length files])"
    by (simp only: downloadFiles_concat filter_concat_map w concat_map_if)
  moreover have "filter is_error_log (downloadFiles P S files rootPath)
      = [LogError (''Failed to write file '' @ asString P (relativePath (files ! k))
           @ '': '' @ err)]"
    by (simp only: downloadFiles_concat filter_concat_map e concat_map_only [OF k])
  moreover have "filter is_notice (downloadFiles P S files rootPath)
      = [Notice (''Failed to write file '' @ asString P (relativePath (files ! k)))]"
    by (simp only: downloadFiles_concat filter_concat_map n concat_map_only [OF k])
  ultimately show ?thesis by blast
qed

text \<open>
  Three runs over the same three artifacts, with the second one failing: its write is
  rejected, its directory creation is rejected, the conversion of the third one's
  buffer throws.
\<close>

theorem downloadFiles_isolates_failure_witness:
  "filter is_write (downloadFiles (simplePath []) (failingAt 1 ''EACCES'') exampleFiles ''/out'')
     = [Write ''/out/a/x.html'' ''X'', Write ''/out/b/y.html'' ''Y'', Write ''/out/c/z.css'' ''Z'']
   \<and> filter is_error_log (downloadFiles (simplePath []) (failingAt 1 ''EACCES'') exampleFiles ''/out'')
     = [LogError ''Failed to write file b/y.html: EACCES'']
   \<and> filter is_notice (downloadFiles (simplePath []) (failingAt 1 ''EACCES'') exampleFiles ''/out'')
     = [Notice ''Failed to write file b/y.html'']
   \<and> filter is_mkdir
        (downloadFiles (simplePath []) (mkdirFailingAt 1 ''ENOSPC'') exampleFiles ''/out'')
     = [Mkdir ''/out/a'', Mkdir ''/out/b'', Mkdir ''/out/c'']
   \<and> filter is_write
        (downloadFiles (simplePath []) (mkdirFailingAt 1 ''ENOSPC'') exampleFiles ''/out'')
     = [Write ''/out/a/x.html'' ''X'', Write ''/out/c/z.css'' ''Z'']
   \<and> filter is_error_log
        (downloadFiles (simplePath []) (mkdirFailingAt 1 ''ENOSPC'') exampleFiles ''/out'')
     = [LogError ''Failed to write file b/y.html: ENOSPC'']
   \<and> filter is_notice
        (downloadFiles (simplePath []) (mkdirFailingAt 1 ''ENOSPC'') exampleFiles ''/out'')
     = [Notice ''Failed to write file b/y.html'']
   \<and> filter is_write
        (downloadFiles (simplePath []) (unknownEncoding ''latin1'' ''Unknown encoding'')
           exampleFiles ''/out'')
     = [Write ''/out/a/x.html'' ''X'', Write ''/out/b/y.html'' ''Y'']
   \<and> filter is_error_log
        (downloadFiles (simplePath []) (unknownEncoding ''latin1'' ''Unknown encoding'')
           exampleFiles ''/out'')
     = [LogError ''Failed to write file c/z.css: Unknown encoding'']
   \<and> filter is_notice
        (downloadFiles (simplePath []) (unknownEncoding ''latin1'' ''Unknown encoding'')
           exampleFiles ''/out'')
     = [Notice ''Failed to write file c/z.css'']"
proof -
  let ?P = "simplePath []"
  let ?data = "\<lambda>i. [''X'', ''Y'', ''Z''] ! i"
  have k1: "1 < length exampleFiles" and k2: "2 < length exampleFiles"
    by (simp_all add: exampleFiles_nth)
  have o1: "\<forall>i<length exampleFiles. i \<noteq> 1 \<longrightarrow>
        adapterMkdir (failingAt 1 ''EACCES'') i (dirPathOf ?P ''/out'' (exampleFiles ! i)) = None
        \<and> contentString (failingAt 1 ''EACCES'') (exampleFiles ! i) = Inr (?data i)
        \<and> adapterWrite (failingAt 1 ''EACCES'') i (filePathOf ?P ''/out'' (exampleFiles ! i))
            (?data i) = None"
    by (simp add: exampleFiles_nth All_less_Suc contentString_def failingAt_def)
  have f1: "adapterMkdir (failingAt 1 ''EACCES'') 1 (dirPathOf ?P ''/out'' (exampleFiles ! 1))
          = Some ''EACCES''
        \<or> (adapterMkdir (failingAt 1 ''EACCES'') 1 (dirPathOf ?P ''/out'' (exampleFiles ! 1)) = None
            \<and> contentString (failingAt 1 ''EACCES'') (exampleFiles ! 1) = Inl ''EACCES'')
        \<or> (adapterMkdir (failingAt 1 ''EACCES'') 1 (dirPathOf ?P ''/out'' (exampleFiles ! 1)) = None
            \<and> contentString (failingAt 1 ''EACCES'') (exampleFiles ! 1) = Inr (?data 1)
            \<and> adapterWrite (failingAt 1 ''EACCES'') 1 (filePathOf ?P ''/out'' (exampleFiles ! 1))
                (?data 1) = Some ''EACCES'')"
    by (simp add: exampleFiles_nth contentString_def failingAt_def)
  have o2: "\<forall>i<length exampleFiles. i \<noteq> 1 \<longrightarrow>
        adapterMkdir (mkdirFailingAt 1 ''ENOSPC'') i (dirPathOf ?P ''/out'' (exampleFiles ! i)) = None
        \<and> contentString (mkdirFailingAt 1 ''ENOSPC'') (exampleFiles ! i) = Inr (?data i)
        \<and> adapterWrite (mkdirFailingAt 1 ''ENOSPC'') i (filePathOf ?P ''/out'' (exampleFiles ! i))
            (?data i) = None"
    by (simp add: exampleFiles_nth All_less_Suc contentString_def mkdirFailingAt_def)
  have f2: "adapterMkdir (mkdirFailingAt 1 ''ENOSPC'') 1 (dirPathOf ?P ''/out'' (exampleFiles ! 1))
          = Some ''ENOSPC''
        \<or> (adapterMkdir (mkdirFailingAt 1 ''ENOSPC'') 1 (dirPathOf ?P ''/out'' (exampleFiles ! 1)) = None
            \<and> contentString (mkdirFailingAt 1 ''ENOSPC'') (exampleFiles ! 1) = Inl ''ENOSPC'')
        \<or> (adapterMkdir (mkdirFailingAt 1 ''ENOSPC'') 1 (dirPathOf ?P ''/out'' (exampleFiles ! 1)) = None
            \<and> contentString (mkdirFailingAt 1 ''ENOSPC'') (exampleFiles ! 1) = Inr (?data 1)
            \<and> adapterWrite (mkdirFailingAt 1 ''ENOSPC'') 1 (filePathOf ?P ''/out'' (exampleFiles ! 1))
                (?data 1) = Some ''ENOSPC'')"
    by (simp add: mkdirFailingAt_def)
  let ?U = "unknownEncoding ''latin1'' ''Unknown encoding''"
  have o3: "\<forall>i<length exampleFiles. i \<noteq> 2 \<longrightarrow>
        adapterMkdir ?U i (dirPathOf ?P ''/out'' (exampleFiles ! i)) = None
        \<and> contentString ?U (exampleFiles ! i) = Inr (?data i)
        \<and> adapterWrite ?U i (filePathOf ?P ''/out'' (exampleFiles ! i)) (?data i) = None"
    by (simp add: exampleFiles_nth All_less_Suc contentString_def unknownEncoding_def)
  have f3: "adapterMkdir ?U 2 (dirPathOf ?P ''/out'' (exampleFiles ! 2)) = Some ''Unknown encoding''
        \<or> (adapterMkdir ?U 2 (dirPathOf ?P ''/out'' (exampleFiles ! 2)) = None
            \<and> contentString ?U (exampleFiles ! 2) = Inl ''Unknown encoding'')
        \<or> (adapterMkdir ?U 2 (dirPathOf ?P ''/out'' (exampleFiles ! 2)) = None
            \<and> contentString ?U (exampleFiles ! 2) = Inr (?data 2)
            \<and> adapterWrite ?U 2 (filePathOf ?P ''/out'' (exampleFiles ! 2)) (?data 2)
                = Some ''Unknown encoding'')"
    by (simp add: exampleFiles_nth numeral_2_eq_2 contentString_def unknownEncoding_def)
  note r1 = downloadFiles_isolates_failure [OF k1 o1 f1]
  note r2 = downloadFiles_isolates_failure [OF k1 o2 f2]
  note r3 = downloadFiles_isolates_failure [OF k2 o3 f3]
  have a: "filter is_write (downloadFiles ?P (failingAt 1 ''EACCES'') exampleFiles ''/out'')
        = [Write ''/out/a/x.html'' ''X'', Write ''/out/b/y.html'' ''Y'', Write ''/out/c/z.css'' ''Z'']
      \<and> filter is_error_log (downloadFiles ?P (failingAt 1 ''EACCES'') exampleFiles ''/out'')
        = [LogError ''Failed to write file b/y.html: EACCES'']
      \<and> filter is_notice (downloadFiles ?P (failingAt 1 ''EACCES'') exampleFiles ''/out'')
        = [Notice ''Failed to write file b/y.html'']"
    using r1
    by (simp add: exampleFiles_nth filePathOf_def dirPathOf_def simplePath_def
        contentString_def failingAt_def)
  have b: "filter is_mkdir (downloadFiles ?P (mkdirFailingAt 1 ''ENOSPC'') exampleFiles ''/out'')
        = [Mkdir ''/out/a'', Mkdir ''/out/b'', Mkdir ''/out/c'']
      \<and> filter is_write (downloadFiles ?P (mkdirFailingAt 1 ''ENOSPC'') exampleFiles ''/out'')
        = [Write ''/out/a/x.html'' ''X'', Write ''/out/c/z.css'' ''Z'']
      \<and> filter is_error_log (downloadFiles ?P (mkdirFailingAt 1 ''ENOSPC'') exampleFiles ''/out'')
        = [LogError ''Failed to write file b/y.html: ENOSPC'']
      \<and> filter is_notice (downloadFiles ?P (mkdirFailingAt 1 ''ENOSPC'') exampleFiles ''/out'')
        = [Notice ''Failed to write file b/y.html'']"
    using r2
    by (simp add: exampleFiles_nth filePathOf_def dirPathOf_def simplePath_def
        contentString_def mkdirFailingAt_def)
  have c: "filter is_write (downloadFiles ?P ?U exampleFiles ''/out'')
        = [Write ''/out/a/x.html'' ''X'', Write ''/out/b/y.html'' ''Y'']
      \<and> filter is_error_log (downloadFiles ?P ?U exampleFiles ''/out'')
        = [LogError ''Failed to write file c/z.css: Unknown encoding'']
      \<and> filter is_notice (downloadFiles ?P ?U exampleFiles ''/out'')
        = [Notice ''Failed to write file c/z.css'']"
    using r3
    by (simp add: exampleFiles_nth numeral_2_eq_2 filePathOf_def dirPathOf_def simplePath_def
        contentString_def unknownEncoding_def)
  from a b c show ?thesis by simp
qed

section \<open>Properties: waiting for a condition\<close>

text \<open>
  Claim C6.  When the condition holds at the time of the call, \<open>waitUntil\<close>
  evaluates it once and resolves to \<open>true\<close> at once: no timer is scheduled, whatever
  the timeout and the interval.
\<close>

theorem waitUntil_immediate:
  "condition 0 \<Longrightarrow> waitUntil A condition timeout interval = Some [Sample True, Resolve True]"
  by (simp add: waitUntil_def)

theorem waitUntil_immediate_witness:
  "waitUntil wholeNumbers (\<lambda>n. True) (- 5) 0 = Some [Sample True, Resolve True]"
  using waitUntil_immediate [of "\<lambda>n. True" wholeNumbers "- 5" 0] by simp

lemma intervalTicks_true:
  "condition (k + j) \<Longrightarrow>
   (\<forall>m<j. \<not> condition (k + m) \<and> \<not> numGe A (timerAfter A interval timer (Suc m)) timeout) \<Longrightarrow>
   intervalTicks A condition timeout interval k timer trace
     = Some (trace @ replicate j (Sample False) @ [Sample True, ClearInterval, Resolve True])"
proof (induction j arbitrary: k timer trace)
  case 0
  then show ?case
    by (subst intervalTicks.simps) simp
next
  case (Suc j)
  have c: "\<not> condition k" and t: "\<not> numGe A (numAdd A timer interval) timeout"
    using Suc.prems(2) [rule_format, of 0] by simp_all
  have "intervalTicks A condition timeout interval (k + 1) (numAdd A timer interval)
        (trace @ [Sample False])
      = Some ((trace @ [Sample False]) @ replicate j (Sample False)
          @ [Sample True, ClearInterval, Resolve True])"
  proof (rule Suc.IH)
    show "condition (k + 1 + j)"
      using Suc.prems(1) by simp
    show "\<forall>m<j. \<not> condition (k + 1 + m)
        \<and> \<not> numGe A (timerAfter A interval (numAdd A timer interval) (Suc m)) timeout"
    proof (intro allI impI)
      fix m assume "m < j"
      then have "\<not> condition (k + Suc m)
          \<and> \<not> numGe A (timerAfter A interval timer (Suc (Suc m))) timeout"
        using Suc.prems(2) [rule_format, of "Suc m"] by simp
      then show "\<not> condition (k + 1 + m)
          \<and> \<not> numGe A (timerAfter A interval (numAdd A timer interval) (Suc m)) timeout"
        by simp
    qed
  qed
  then show ?case
    using c t by (subst intervalTicks.simps) (simp add: Let_def replicate_app_Cons_same)
qed

lemma intervalTicks_false:
  "(\<forall>m\<le>j. \<not> condition (k + m)) \<Longrightarrow>
   (\<forall>m<j. \<not> numGe A (timerAfter A interval timer (Suc m)) timeout) \<Longrightarrow>
   numGe A (timerAfter A interval timer (Suc j)) timeout \<Longrightarrow>
   intervalTicks A condition timeout interval k timer trace
     = Some (trace @ replicate j (Sample False) @ [Sample False, ClearInterval, Resolve False])"
proof (induction j arbitrary: k timer trace)
  case 0
  then show ?case
    by (subst intervalTicks.simps) simp
next
  case (Suc j)
  have c: "\<not> condition k"
    using Suc.prems(1) [rule_format, of 0] by simp
  have t: "\<not> numGe A (numAdd A timer interval) timeout"
    using Suc.prems(2) [rule_format, of 0] by simp
  have "intervalTicks A condition timeout interval (k + 1) (numAdd A timer interval)
        (trace @ [Sample False])
      = Some ((trace @ [Sample False]) @ replicate j (Sample False)
          @ [Sample False, ClearInterval, Resolve False])"
  proof (rule Suc.IH)
    show "\<forall>m\<le>j. \<not> condition (k + 1 + m)"
    proof (intro allI impI)
      fix m assume "m \<le> j"
      then have "\<not> condition (k + Suc m)"
        using Suc.prems(1) [rule_format, of "Suc m"] by simp
      then show "\<not> condition (k + 1 + m)" by simp
    qed
    show "\<forall>m<j. \<not> numGe A (timerAfter A interval (numAdd A timer interval) (Suc m)) timeout"
    proof (intro allI impI)
      fix m assume "m < j"
      then have "\<not> numGe A (timerAfter A interval timer (Suc (Suc m))) timeout"
        using Suc.prems(2) [rule_format, of "Suc m"] by simp
      then show "\<not> numGe A (timerAfter A interval (numAdd A timer interval) (Suc m)) timeout"
        by simp
    qed
    show "numGe A (timerAfter A interval (numAdd A timer interval) (Suc j)) timeout"
      using Suc.prems(3) by simp
  qed
  then show ?case
    using c t by (subst intervalTicks.simps) (simp add: Let_def replicate_app_Cons_same)
qed

lemma intervalTicks_shape:
  assumes "intervalTicks A condition timeout interval n timer trace = Some tr"
  shows "\<exists>k b. tr = trace @ replicate k (Sample False) @ [Sample b, ClearInterval, Resolve b]"
proof (rule intervalTicks.raw_induct
    [where P = "\<lambda>A condition timeout interval n timer trace tr.
       \<exists>k b. tr = trace @ replicate k (Sample False) @ [Sample b, ClearInterval, Resolve b]",
     OF _ assms])
  fix f :: "'a arith \<Rightarrow> (nat \<Rightarrow> bool) \<Rightarrow> 'a \<Rightarrow> 'a \<Rightarrow> nat \<Rightarrow> 'a \<Rightarrow> timer_event list
      \<Rightarrow> timer_event list option"
  fix A :: "'a arith" and condition timeout interval n timer trace tr
  assume IH: "\<And>A condition timeout interval n timer trace tr.
      f A condition timeout interval n timer trace = Some tr \<Longrightarrow>
      \<exists>k b. tr = trace @ replicate k (Sample False) @ [Sample b, ClearInterval, Resolve b]"
  assume body: "(if condition n then Some (trace @ [Sample True, ClearInterval, Resolve True])
      else let timer' = numAdd A timer interval
           in if numGe A timer' timeout
              then Some (trace @ [Sample False, ClearInterval, Resolve False])
              else f A condition timeout interval (n + 1) timer' (trace @ [Sample False]))
     = Some tr"
  show "\<exists>k b. tr = trace @ replicate k (Sample False) @ [Sample b, ClearInterval, Resolve b]"
  proof (cases "condition n")
    case True
    with body
    have "tr = trace @ replicate 0 (Sample False) @ [Sample True, ClearInterval, Resolve True]"
      by simp
    then show ?thesis by blast
  next
    case False
    show ?thesis
    proof (cases "numGe A (numAdd A timer interval) timeout")
      case True
      with False body
      have "tr = trace @ replicate 0 (Sample False) @ [Sample False, ClearInterval, Resolve False]"
        by (simp add: Let_def)
      then show ?thesis by blast
    next
      case nt: False
      with False body
      have "f A condition timeout interval (n + 1) (numAdd A timer interval)
          (trace @ [Sample False]) = Some tr"
        by (simp add: Let_def)
      then obtain k b where
        "tr = (trace @ [Sample False]) @ replicate k (Sample False)
           @ [Sample b, ClearInterval, Resolve b]"
        using IH by blast
      then have "tr = trace @ replicate (Suc k) (Sample False) @ [Sample b, ClearInterval, Resolve b]"
        by simp
      then show ?thesis by blast
    qed
  qed
qed

lemma timerActive_samples:
  "foldl (\<lambda>active e. case e of SetInterval \<Rightarrow> True | ClearInterval \<Rightarrow> False | _ \<Rightarrow> active)
     a (replicate k (Sample b)) = a"
  by (induction k) simp_all

lemma timer_cleared:
  "\<not> timerActiveAfter (Sample False # SetInterval # replicate k (Sample False) @ [Sample b, ClearInterval])"
  by (simp add: timerActiveAfter_def timerActive_samples)

lemma waitUntil_true_at:
  assumes c0: "\<not> condition 0" and cn: "condition (Suc j)"
    and before: "\<And>m. 0 < m \<Longrightarrow> m < Suc j \<Longrightarrow>
      \<not> condition m \<and> \<not> numGe A (timerAfter A interval (numZero A) m) timeout"
  shows "waitUntil A condition timeout interval
      = Some (Sample False # SetInterval # replicate j (Sample False)
          @ [Sample True, ClearInterval, Resolve True])"
proof -
  have "intervalTicks A condition timeout interval 1 (numZero A) [Sample False, SetInterval]
      = Some ([Sample False, SetInterval] @ replicate j (Sample False)
          @ [Sample True, ClearInterval, Resolve True])"
  proof (rule intervalTicks_true)
    show "condition (1 + j)"
      using cn by (simp only: plus_1_eq_Suc)
    show "\<forall>m<j. \<not> condition (1 + m)
        \<and> \<not> numGe A (timerAfter A interval (numZero A) (Suc m)) timeout"
    proof (intro allI impI)
      fix m assume "m < j"
      then have "Suc m < Suc j"
        by (simp only: Suc_less_eq)
      with before [of "Suc m"] show "\<not> condition (1 + m)
          \<and> \<not> numGe A (timerAfter A interval (numZero A) (Suc m)) timeout"
        by (simp only: plus_1_eq_Suc zero_less_Suc simp_thms)
    qed
  qed
  with c0 show ?thesis
    by (simp only: waitUntil_def if_False append_Cons append_Nil)
qed

lemma waitUntil_false_at:
  assumes never: "\<And>m. m \<le> Suc j \<Longrightarrow> \<not> condition m"
    and before: "\<And>m. 0 < m \<Longrightarrow> m < Suc j \<Longrightarrow>
      \<not> numGe A (timerAfter A interval (numZero A) m) timeout"
    and reached: "numGe A (timerAfter A interval (numZero A) (Suc j)) timeout"
  shows "waitUntil A condition timeout interval
      = Some (Sample False # SetInterval # replicate j (Sample False)
          @ [Sample False, ClearInterval, Resolve False])"
proof -
  have "intervalTicks A condition timeout interval 1 (numZero A) [Sample False, SetInterval]
      = Some ([Sample False, SetInterval] @ replicate j (Sample False)
          @ [Sample False, ClearInterval, Resolve False])"
  proof (rule intervalTicks_false)
    show "\<forall>m\<le>j. \<not> condition (1 + m)"
    proof (intro allI impI)
      fix m assume "m \<le> j"
      then have "Suc m \<le> Suc j"
        by (simp only: Suc_le_mono)
      then show "\<not> condition (1 + m)"
        using never [of "Suc m"] by (simp only: plus_1_eq_Suc simp_thms)
    qed
    show "\<forall>m<j. \<not> numGe A (timerAfter A interval (numZero A) (Suc m)) timeout"
    proof (intro allI impI)
      fix m assume "m < j"
      then have "Suc m < Suc j"
        by (simp only: Suc_less_eq)
      with before [of "Suc m"]
      show "\<not> numGe A (timerAfter A interval (numZero A) (Suc m)) timeout"
        by (simp only: zero_less_Suc simp_thms)
    qed
    show "numGe A (timerAfter A interval (numZero A) (Suc j)) timeout"
      by (rule reached)
  qed
  moreover have "\<not> condition 0"
    by (rule never) (rule le0)
  ultimately show ?thesis
    by (simp only: waitUntil_def if_False append_Cons append_Nil)
qed

lemma waitUntil_resolved:
  assumes r: "waitUntil A condition timeout interval = Some tr"
  shows "tr = [Sample True, Resolve True]
        \<or> (\<exists>k b. tr = Sample False # SetInterval # replicate k (Sample False)
                    @ [Sample b, ClearInterval, Resolve b]
              \<and> \<not> timerActiveAfter (Sample False # SetInterval # replicate k (Sample False)
                    @ [Sample b, ClearInterval]))"
proof (cases "condition 0")
  case True
  with r have "tr = [Sample True, Resolve True]"
    by (simp only: waitUntil_def if_True option.inject)
  then show ?thesis ..
next
  case False
  with r have "intervalTicks A condition timeout interval 1 (numZero A)
      [Sample False, SetInterval] = Some tr"
    by (simp only: waitUntil_def if_False)
  from intervalTicks_shape [OF this] obtain k b where
    "tr = [Sample False, SetInterval] @ replicate k (Sample False)
       @ [Sample b, ClearInterval, Resolve b]"
    by blast
  then have "tr = Sample False # SetInterval # replicate k (Sample False)
       @ [Sample b, ClearInterval, Resolve b]"
    by (simp only: append_Cons append_Nil)
  with timer_cleared [of k b] show ?thesis
    by blast
qed

text \<open>
  Claim C5.  Let the condition be false at the call, and let the accumulated wait
  time after \<open>m\<close> ticks be the value of \<open>timer\<close> after \<open>m\<close> additions of the interval to
  0, as the function computes it.  If tick \<open>n\<close> is the first tick at which the
  condition is true, and the accumulated time had not reached the timeout at any
  earlier tick, then \<open>waitUntil\<close> resolves to \<open>true\<close> at tick \<open>n\<close>.  If the condition is
  false up to tick \<open>n\<close> and \<open>n\<close> is the first tick at which the accumulated time
  reaches or exceeds the timeout, it resolves to \<open>false\<close> at tick \<open>n\<close>.  Whenever it
  resolves after having scheduled the timer, the trace ends with \<open>clearInterval\<close>
  followed by the resolution, and no timer is scheduled at the resolution.  This
  holds for every arithmetic of the numbers.
\<close>

theorem waitUntil_polls:
  "(\<not> condition 0 \<and> 0 < n \<and> condition n
      \<and> (\<forall>m. 0 < m \<and> m < n \<longrightarrow>
            \<not> condition m \<and> \<not> numGe A (timerAfter A interval (numZero A) m) timeout)
      \<longrightarrow> waitUntil A condition timeout interval
          = Some (Sample False # SetInterval # replicate (n - 1) (Sample False)
                   @ [Sample True, ClearInterval, Resolve True]))
   \<and> (0 < n \<and> (\<forall>m\<le>n. \<not> condition m)
      \<and> (\<forall>m. 0 < m \<and> m < n \<longrightarrow> \<not> numGe A (timerAfter A interval (numZero A) m) timeout)
      \<and> numGe A (timerAfter A interval (numZero A) n) timeout
      \<longrightarrow> waitUntil A condition timeout interval
          = Some (Sample False # SetInterval # replicate (n - 1) (Sample False)
                   @ [Sample False, ClearInterval, Resolve False]))
   \<and> (\<forall>tr. waitUntil A condition timeout interval = Some tr \<longrightarrow>
        tr = [Sample True, Resolve True]
        \<or> (\<exists>k b. tr = Sample False # SetInterval # replicate k (Sample False)
                    @ [Sample b, ClearInterval, Resolve b]
              \<and> \<not> timerActiveAfter (Sample False # SetInterval # replicate k (Sample False)
                    @ [Sample b, ClearInterval])))"
proof (intro conjI impI allI)
  assume a: "\<not> condition 0 \<and> 0 < n \<and> condition n
      \<and> (\<forall>m. 0 < m \<and> m < n \<longrightarrow>
            \<not> condition m \<and> \<not> numGe A (timerAfter A interval (numZero A) m) timeout)"
  then obtain j where j: "n = Suc j"
    by (cases n) auto
  have "waitUntil A condition timeout interval
      = Some (Sample False # SetInterval # replicate j (Sample False)
          @ [Sample True, ClearInterval, Resolve True])"
  proof (rule waitUntil_true_at)
    show "\<not> condition 0" using a by (rule conjunct1)
    show "condition (Suc j)" using a unfolding j by (elim conjE)
    fix m assume "0 < m" "m < Suc j"
    then have "0 < m \<and> m < Suc j" ..
    with a [unfolded j, THEN conjunct2, THEN conjunct2, THEN conjunct2, rule_format, of m]
    show "\<not> condition m \<and> \<not> numGe A (timerAfter A interval (numZero A) m) timeout" .
  qed
  then show "waitUntil A condition timeout interval
      = Some (Sample False # SetInterval # replicate (n - 1) (Sample False)
          @ [Sample True, ClearInterval, Resolve True])"
    by (simp only: j diff_Suc_1)
next
  assume a: "0 < n \<and> (\<forall>m\<le>n. \<not> condition m)
      \<and> (\<forall>m. 0 < m \<and> m < n \<longrightarrow> \<not> numGe A (timerAfter A interval (numZero A) m) timeout)
      \<and> numGe A (timerAfter A interval (numZero A) n) timeout"
  then obtain j where j: "n = Suc j"
    by (cases n) auto
  have "waitUntil A condition timeout interval
      = Some (Sample False # SetInterval # replicate j (Sample False)
          @ [Sample False, ClearInterval, Resolve False])"
  proof (rule waitUntil_false_at)
    fix m assume "m \<le> Suc j"
    with a [unfolded j, THEN conjunct2, THEN conjunct1, rule_format, of m]
    show "\<not> condition m" .
  next
    fix m assume "0 < m" "m < Suc j"
    then have "0 < m \<and> m < Suc j" ..
    with a [unfolded j, THEN conjunct2, THEN conjunct2, THEN conjunct1, rule_format, of m]
    show "\<not> numGe A (timerAfter A interval (numZero A) m) timeout" .
  next
    from a [unfolded j, THEN conjunct2, THEN conjunct2, THEN conjunct2]
    show "numGe A (timerAfter A interval (numZero A) (Suc j)) timeout" .
  qed
  then show "waitUntil A condition timeout interval
      = Some (Sample False # SetInterval # replicate (n - 1) (Sample False)
          @ [Sample False, ClearInterval, Resolve False])"
    by (simp only: j diff_Suc_1)
next
  fix tr assume "waitUntil A condition timeout interval = Some tr"
  then show "tr = [Sample True, Resolve True]
        \<or> (\<exists>k b. tr = Sample False # SetInterval # replicate k (Sample False)
                    @ [Sample b, ClearInterval, Resolve b]
              \<and> \<not> timerActiveAfter (Sample False # SetInterval # replicate k (Sample False)
                    @ [Sample b, ClearInterval]))"
    by (rule waitUntil_resolved)
qed

lemma wholeNumbers_timerAfter: "timerAfter wholeNumbers interval timer m = timer + int m * interval"
  by (induction m arbitrary: timer) (simp_all add: wholeNumbers_def algebra_simps)

theorem waitUntil_polls_witness:
  "waitUntil wholeNumbers (\<lambda>n. 3 \<le> n) 1000 100
     = Some [Sample False, SetInterval, Sample False, Sample False, Sample True,
             ClearInterval, Resolve True]
   \<and> waitUntil wholeNumbers (\<lambda>n. False) 200 100
     = Some [Sample False, SetInterval, Sample False, Sample False,
             ClearInterval, Resolve False]"
proof -
  have a: "\<forall>m::nat. 0 < m \<and> m < 3 \<longrightarrow>
      \<not> 3 \<le> m \<and> \<not> numGe wholeNumbers (timerAfter wholeNumbers 100 (numZero wholeNumbers) m) 1000"
    by (auto simp: wholeNumbers_timerAfter) (simp add: wholeNumbers_def)
  have b: "\<forall>m::nat. 0 < m \<and> m < 2 \<longrightarrow>
      \<not> numGe wholeNumbers (timerAfter wholeNumbers 100 (numZero wholeNumbers) m) 200"
    by (auto simp: wholeNumbers_timerAfter) (simp add: wholeNumbers_def)
  have c: "numGe wholeNumbers (timerAfter wholeNumbers 100 (numZero wholeNumbers) 2) 200"
    by (simp add: wholeNumbers_timerAfter) (simp add: wholeNumbers_def)
  show ?thesis
    using waitUntil_polls [of "\<lambda>n. 3 \<le> n" 3 wholeNumbers 100 1000]
      waitUntil_polls [of "\<lambda>n. False" 2 wholeNumbers 100 200] a b c
    by (simp add: numeral_eq_Suc)
qed

section \<open>Properties: edit distance\<close>

subsection \<open>Edits at a position and edits from the head\<close>

lemma head_edit_insert_at: "head_edit (u @ v) (u @ c # v)"
  by (induction u) (auto intro: head_edit.intros)

lemma head_edit_delete_at: "head_edit (u @ c # v) (u @ v)"
  by (induction u) (auto intro: head_edit.intros)

lemma head_edit_substitute_at: "head_edit (u @ c # v) (u @ d # v)"
  by (induction u) (auto intro: head_edit.intros)

lemma single_edit_Cons: "single_edit xs ys \<Longrightarrow> single_edit (c # xs) (c # ys)"
proof (induction rule: single_edit.induct)
  case (insertion u v d)
  show ?case using single_edit.insertion [of "c # u" v d] by simp
next
  case (deletion u d v)
  show ?case using single_edit.deletion [of "c # u" d v] by simp
next
  case (substitution u d v e)
  show ?case using single_edit.substitution [of "c # u" d v e] by simp
qed

lemma single_edit_head_edit: "single_edit a b = head_edit a b"
proof
  assume "single_edit a b"
  then show "head_edit a b"
    by (induction rule: single_edit.induct)
      (rule head_edit_insert_at head_edit_delete_at head_edit_substitute_at)+
next
  assume "head_edit a b"
  then show "single_edit a b"
  proof (induction rule: head_edit.induct)
    case (ins xs c)
    show ?case using single_edit.insertion [of "[]" xs c] by simp
  next
    case (del c xs)
    show ?case using single_edit.deletion [of "[]" c xs] by simp
  next
    case (sub c xs d)
    show ?case using single_edit.substitution [of "[]" c xs d] by simp
  next
    case (tail xs ys c)
    then show ?case by (simp add: single_edit_Cons)
  qed
qed

lemma single_edit_rev: "single_edit a b \<Longrightarrow> single_edit (rev a) (rev b)"
proof (induction rule: single_edit.induct)
  case (insertion u v c)
  show ?case using single_edit.insertion [of "rev v" "rev u" c] by simp
next
  case (deletion u c v)
  show ?case using single_edit.deletion [of "rev v" c "rev u"] by simp
next
  case (substitution u c v d)
  show ?case using single_edit.substitution [of "rev v" c "rev u" d] by simp
qed

lemma transforms_rev: "transforms n a b \<Longrightarrow> transforms n (rev a) (rev b)"
  unfolding transforms_def
proof (induction n arbitrary: b)
  case 0
  then show ?case by simp
next
  case (Suc n)
  then obtain m where m: "(single_edit ^^ n) a m" "single_edit m b"
    by auto
  from Suc.IH [OF m(1)] single_edit_rev [OF m(2)] show ?case
    by (rule relpowp_Suc_I)
qed

lemma transforms_Cons: "transforms n a b \<Longrightarrow> transforms n (c # a) (c # b)"
  unfolding transforms_def
proof (induction n arbitrary: b)
  case 0
  then show ?case by simp
next
  case (Suc n)
  then obtain m where m: "(single_edit ^^ n) a m" "single_edit m b"
    by auto
  from Suc.IH [OF m(1)] single_edit_Cons [OF m(2)] show ?case
    by (rule relpowp_Suc_I)
qed

lemma transforms_then: "transforms n a m \<Longrightarrow> single_edit m b \<Longrightarrow> transforms (Suc n) a b"
  unfolding transforms_def by auto

lemma transforms_first: "single_edit a m \<Longrightarrow> transforms n m b \<Longrightarrow> transforms (Suc n) a b"
  unfolding transforms_def by (rule relpowp_Suc_I2)

subsection \<open>The recursion\<close>

lemma lev_Nil2: "lev xs [] = length xs"
  by (cases xs) simp_all

lemma lev_refl: "lev a a = 0"
  by (induction a) simp_all

lemma lev_insert: "lev a (c # b) \<le> lev a b + 1"
  by (cases a) simp_all

lemma lev_delete: "lev (x # xs) b \<le> lev xs b + 1"
  by (cases b) (simp_all add: lev_Nil2)

lemma lev_diag: "lev (x # xs) (y # ys) \<le> lev xs ys + 1"
  by (simp add: min_le_iff_disj)

lemma le_min3_plus:
  "L \<le> a + 1 \<Longrightarrow> L \<le> b + 1 \<Longrightarrow> L \<le> c + 1 \<Longrightarrow> L \<le> min a (min b c) + (1::nat)"
  by (simp add: min_def)

lemma lev_Cons_Cons:
  "lev (x # xs) (y # ys) =
     min (lev (x # xs) ys + 1) (min (lev xs (y # ys) + 1) (lev xs ys + (if x = y then 0 else 1)))"
  by simp

lemma lev_Cons_le:
  assumes "\<And>a. lev a t' \<le> lev a t + 1"
  shows "lev a (c # t') \<le> lev a (c # t) + 1"
proof (induction a)
  case Nil
  from assms [of "[]"] show ?case by simp
next
  case (Cons x xs)
  have 1: "lev (x # xs) (c # t') \<le> lev (x # xs) t + 1 + 1"
    using lev_insert [of "x # xs" c t'] assms [of "x # xs"] by linarith
  have 2: "lev (x # xs) (c # t') \<le> lev xs (c # t) + 1 + 1"
    using lev_delete [of x xs "c # t'"] Cons.IH by linarith
  have 3: "lev (x # xs) (c # t') \<le> lev xs t + (if x = c then 0 else 1) + 1"
  proof -
    have "lev (x # xs) (c # t') \<le> lev xs t' + (if x = c then 0 else 1)"
      by (simp add: min_le_iff_disj)
    with assms [of xs] show ?thesis by linarith
  qed
  show ?case
    by (subst lev_Cons_Cons) (rule le_min3_plus [OF 1 2 3])
qed

lemma lev_delete_right: "lev a b \<le> lev a (c # b) + 1"
proof (induction a)
  case Nil
  show ?case by simp
next
  case (Cons x xs)
  have 1: "lev (x # xs) b \<le> lev (x # xs) b + 1 + 1" by simp
  have 2: "lev (x # xs) b \<le> lev xs (c # b) + 1 + 1"
    using lev_delete [of x xs b] Cons.IH by linarith
  have 3: "lev (x # xs) b \<le> lev xs b + (if x = c then 0 else 1) + 1"
    using lev_delete [of x xs b] by linarith
  show ?case
    by (subst lev_Cons_Cons) (rule le_min3_plus [OF 1 2 3])
qed

lemma lev_substitute: "lev a (d # t) \<le> lev a (c # t) + 1"
proof (induction a)
  case Nil
  show ?case by simp
next
  case (Cons x xs)
  have 1: "lev (x # xs) (d # t) \<le> lev (x # xs) t + 1 + 1"
    using lev_insert [of "x # xs" d t] by linarith
  have 2: "lev (x # xs) (d # t) \<le> lev xs (c # t) + 1 + 1"
    using lev_delete [of x xs "d # t"] Cons.IH by linarith
  have 3: "lev (x # xs) (d # t) \<le> lev xs t + (if x = c then 0 else 1) + 1"
    using lev_diag [of x xs d t] by linarith
  show ?case
    by (subst lev_Cons_Cons) (rule le_min3_plus [OF 1 2 3])
qed

lemma lev_head_edit: "head_edit b b' \<Longrightarrow> lev a b' \<le> lev a b + 1"
proof (induction arbitrary: a rule: head_edit.induct)
  case (ins xs c)
  show ?case by (rule lev_insert)
next
  case (del c xs)
  show ?case by (rule lev_delete_right)
next
  case (sub c xs d)
  show ?case by (rule lev_substitute)
next
  case (tail xs ys c)
  show ?case by (rule lev_Cons_le) (rule tail.IH)
qed

lemma lev_lower: "transforms n a b \<Longrightarrow> lev a b \<le> n"
  unfolding transforms_def
proof (induction n arbitrary: b)
  case 0
  then show ?case by (simp add: lev_refl)
next
  case (Suc n)
  then obtain m where m: "(single_edit ^^ n) a m" "single_edit m b"
    by auto
  from m(1) have "lev a m \<le> n" by (rule Suc.IH)
  moreover from m(2) have "head_edit m b"
    by (simp add: single_edit_head_edit)
  then have "lev a b \<le> lev a m + 1"
    by (rule lev_head_edit)
  ultimately show ?case by linarith
qed

lemma transforms_insert_all: "transforms (length ys) [] ys"
proof (induction ys)
  case Nil
  show ?case by (simp add: transforms_def)
next
  case (Cons y ys)
  have "single_edit ys (y # ys)"
    using single_edit.insertion [of "[]" ys y] by simp
  with Cons show ?case
    by (simp add: transforms_then)
qed

lemma transforms_delete_all: "transforms (length xs) xs []"
proof (induction xs)
  case Nil
  show ?case by (simp add: transforms_def)
next
  case (Cons x xs)
  have "single_edit (x # xs) xs"
    using single_edit.deletion [of "[]" x xs] by simp
  with Cons show ?case
    by (simp add: transforms_first)
qed

lemma lev_upper: "transforms (lev a b) a b"
proof (induction a b rule: lev.induct)
  case (1 ys)
  show ?case by (simp add: transforms_insert_all)
next
  case (2 x xs)
  show ?case using transforms_delete_all [of "x # xs"] by simp
next
  case (3 x xs y ys)
  let ?i = "lev (x # xs) ys + 1" and ?d = "lev xs (y # ys) + 1"
  let ?s = "lev xs ys + (if x = y then 0 else 1)"
  have i: "transforms ?i (x # xs) (y # ys)"
  proof -
    have "single_edit ys (y # ys)"
      using single_edit.insertion [of "[]" ys y] by simp
    with "3.IH"(1) show ?thesis by (simp add: transforms_then)
  qed
  have d: "transforms ?d (x # xs) (y # ys)"
  proof -
    have "single_edit (x # xs) xs"
      using single_edit.deletion [of "[]" x xs] by simp
    with "3.IH"(2) show ?thesis by (simp add: transforms_first)
  qed
  have s: "transforms ?s (x # xs) (y # ys)"
  proof (cases "x = y")
    case True
    with "3.IH"(3) show ?thesis by (simp add: transforms_Cons)
  next
    case False
    have "single_edit (x # xs) (y # xs)"
      using single_edit.substitution [of "[]" x xs y] by simp
    moreover have "transforms (lev xs ys) (y # xs) (y # ys)"
      using "3.IH"(3) by (rule transforms_Cons)
    ultimately have "transforms (Suc (lev xs ys)) (x # xs) (y # ys)"
      by (rule transforms_first)
    with False show ?thesis by simp
  qed
  have "lev (x # xs) (y # ys) = ?i \<or> lev (x # xs) (y # ys) = ?d \<or> lev (x # xs) (y # ys) = ?s"
    by (simp add: min_def)
  with i d s show ?case by metis
qed

lemma lev_is_edit_distance: "is_edit_distance a b (lev a b)"
  by (simp add: is_edit_distance_def lev_upper lev_lower)

lemma lev_rev: "lev (rev a) (rev b) = lev a b"
proof (rule antisym)
  have "transforms (lev a b) (rev a) (rev b)"
    using lev_upper by (rule transforms_rev)
  then show "lev (rev a) (rev b) \<le> lev a b"
    by (rule lev_lower)
  have "transforms (lev (rev a) (rev b)) (rev (rev a)) (rev (rev b))"
    using lev_upper by (rule transforms_rev)
  then show "lev a b \<le> lev (rev a) (rev b)"
    using lev_lower by simp
qed

lemma lev_sym: "lev a b = lev b a"
  by (induction a b rule: lev.induct) (simp_all add: lev_Nil2 min.commute min.left_commute eq_commute)

lemma lev_zero_iff: "lev a b = 0 \<longleftrightarrow> a = b"
  by (induction a b rule: lev.induct) auto

subsection \<open>The table\<close>

lemma cell_first_row: "j \<le> length s1 \<Longrightarrow> cell s1 s2 0 j = j"
  by (simp add: cell_def lev_Nil2)

lemma cell_first_column: "i \<le> length s2 \<Longrightarrow> cell s1 s2 i 0 = i"
  by (simp add: cell_def)

lemma rev_take_Suc: "j < length s \<Longrightarrow> rev (take (Suc j) s) = s ! j # rev (take j s)"
  by (simp add: take_Suc_conv_app_nth)

lemma cell_step:
  assumes "j < length s1" "i < length s2"
  shows "cell s1 s2 (Suc i) (Suc j) =
     min (cell s1 s2 i (Suc j) + 1)
       (min (cell s1 s2 (Suc i) j + 1)
          (cell s1 s2 i j + (if s1 ! j = s2 ! i then 0 else 1)))"
  using assms by (simp only: cell_def rev_take_Suc lev_Cons_Cons)

lemma length_tableRow: "length (tableRow s1 s2 i n) = n"
  by (simp add: tableRow_def)

lemma length_tableRows: "length (tableRows s1 s2 i) = i"
  by (simp add: tableRows_def)

lemma tableRow_nth: "j < n \<Longrightarrow> tableRow s1 s2 i n ! j = cell s1 s2 i j"
  by (simp add: tableRow_def)

lemma tableRows_nth: "i' < i \<Longrightarrow> tableRows s1 s2 i ! i' = tableRow s1 s2 i' (Suc (length s1))"
  by (simp add: tableRows_def)

lemma tableRow_Suc: "tableRow s1 s2 i (Suc n) = tableRow s1 s2 i n @ [cell s1 s2 i n]"
  by (simp add: tableRow_def)

lemma tableRows_Suc:
  "tableRows s1 s2 (Suc i) = tableRows s1 s2 i @ [tableRow s1 s2 i (Suc (length s1))]"
  by (simp add: tableRows_def)

lemma readCell_previous:
  assumes "i' < i" "j \<le> length s1"
  shows "readCell (tableRows s1 s2 i @ [r]) i' j = Some (cell s1 s2 i' j)"
  using assms
  by (simp add: readCell_def readAt_def length_tableRows nth_append tableRows_nth
      length_tableRow tableRow_nth)

lemma readCell_current:
  assumes "j < length r"
  shows "readCell (tableRows s1 s2 i @ [r]) i j = Some (r ! j)"
  using assms by (simp add: readCell_def readAt_def length_tableRows nth_append)

lemma cellValue_cell:
  assumes "0 < j" "j \<le> length s1" "i \<le> length s2"
  shows "cellValue s1 s2 (tableRows s1 s2 i @ [tableRow s1 s2 i j]) i j = Some (cell s1 s2 i j)"
proof (cases i)
  case 0
  with assms show ?thesis
    by (simp add: cellValue_def cell_first_row)
next
  case (Suc i')
  from assms(1) obtain j' where j: "j = Suc j'"
    by (cases j) auto
  have up: "readCell (tableRows s1 s2 i @ [tableRow s1 s2 i j]) i' j = Some (cell s1 s2 i' j)"
    using Suc assms(2) by (intro readCell_previous) simp_all
  have left: "readCell (tableRows s1 s2 i @ [tableRow s1 s2 i j]) i j' = Some (cell s1 s2 i j')"
    using j by (simp add: readCell_current length_tableRow tableRow_nth)
  have diag: "readCell (tableRows s1 s2 i @ [tableRow s1 s2 i j]) i' j' = Some (cell s1 s2 i' j')"
    using Suc assms(2) j by (intro readCell_previous) simp_all
  have c1: "readAt s1 j' = Some (s1 ! j')"
    using assms(2) j by (simp add: readAt_def)
  have c2: "readAt s2 i' = Some (s2 ! i')"
    using assms(3) Suc by (simp add: readAt_def)
  have step: "cell s1 s2 (Suc i') (Suc j') =
     min (cell s1 s2 i' (Suc j') + 1)
       (min (cell s1 s2 (Suc i') j' + 1)
          (cell s1 s2 i' j' + (if s1 ! j' = s2 ! i' then 0 else 1)))"
    using assms(2,3) Suc j by (intro cell_step) simp_all
  have "cellValue s1 s2 (tableRows s1 s2 i @ [tableRow s1 s2 i j]) i j =
      do {
        up \<leftarrow> readCell (tableRows s1 s2 i @ [tableRow s1 s2 i j]) i' j;
        left \<leftarrow> readCell (tableRows s1 s2 i @ [tableRow s1 s2 i j]) i j';
        diag \<leftarrow> readCell (tableRows s1 s2 i @ [tableRow s1 s2 i j]) i' j';
        c1 \<leftarrow> readAt s1 j';
        c2 \<leftarrow> readAt s2 i';
        Some (min (up + 1) (min (left + 1) (diag + (if c1 = c2 then 0 else 1))))
      }"
    using Suc j by (simp add: cellValue_def)
  also have "\<dots> = Some (cell s1 s2 (Suc i') (Suc j'))"
    by (simp only: up left diag c1 c2 Option.bind.bind_lunit) (simp only: Suc j step)
  finally show ?thesis
    using Suc j by simp
qed

lemma levRow_fills:
  assumes "0 < j" "j \<le> Suc (length s1)" "i \<le> length s2"
  shows "levRow s1 s2 (tableRows s1 s2 i @ [tableRow s1 s2 i j]) i j = Some (tableRows s1 s2 (Suc i))"
  using assms
proof (induction "Suc (length s1) - j" arbitrary: j)
  case 0
  then have "j = Suc (length s1)" by simp
  then show ?case
    by (subst levRow.simps) (simp add: tableRows_Suc)
next
  case (Suc n)
  then have j: "j \<le> length s1" by simp
  let ?arr = "tableRows s1 s2 i @ [tableRow s1 s2 i j]"
  have v: "cellValue s1 s2 ?arr i j = Some (cell s1 s2 i j)"
    using Suc.prems(1) j Suc.prems(3) by (rule cellValue_cell)
  have row: "readAt ?arr i = Some (tableRow s1 s2 i j)"
    by (simp add: readAt_def length_tableRows nth_append)
  have row': "writeAt (tableRow s1 s2 i j) j (cell s1 s2 i j) = Some (tableRow s1 s2 i (Suc j))"
    by (simp add: writeAt_def length_tableRow tableRow_Suc)
  have arr': "writeAt ?arr i (tableRow s1 s2 i (Suc j))
      = Some (tableRows s1 s2 i @ [tableRow s1 s2 i (Suc j)])"
    by (simp add: writeAt_def length_tableRows list_update_append)
  have rest: "levRow s1 s2 (tableRows s1 s2 i @ [tableRow s1 s2 i (Suc j)]) i (Suc j)
      = Some (tableRows s1 s2 (Suc i))"
    using Suc.hyps(2) j Suc.prems(3) by (intro Suc.hyps(1)) simp_all
  have "levRow s1 s2 ?arr i j =
      do {
        v \<leftarrow> cellValue s1 s2 ?arr i j;
        row \<leftarrow> readAt ?arr i;
        row' \<leftarrow> writeAt row j v;
        arr' \<leftarrow> writeAt ?arr i row';
        levRow s1 s2 arr' i (j + 1)
      }"
    using j by (subst levRow.simps) simp
  also have "\<dots> = Some (tableRows s1 s2 (Suc i))"
    by (simp only: v row row' arr' Option.bind.bind_lunit rest Suc_eq_plus1 [symmetric])
  finally show ?case .
qed

lemma levRows_fills:
  assumes "i \<le> Suc (length s2)"
  shows "levRows s1 s2 (tableRows s1 s2 i) i = Some (tableRows s1 s2 (Suc (length s2)))"
  using assms
proof (induction "Suc (length s2) - i" arbitrary: i)
  case 0
  then have "i = Suc (length s2)" by simp
  then show ?case
    by (subst levRows.simps) simp
next
  case (Suc n)
  then have i: "i \<le> length s2" by simp
  have first: "[i] = tableRow s1 s2 i 1"
    using i by (simp add: tableRow_def cell_first_column)
  have arr1: "writeAt (tableRows s1 s2 i) i [i] = Some (tableRows s1 s2 i @ [tableRow s1 s2 i 1])"
    by (simp add: writeAt_def length_tableRows first)
  have arr2: "levRow s1 s2 (tableRows s1 s2 i @ [tableRow s1 s2 i 1]) i 1
      = Some (tableRows s1 s2 (Suc i))"
    using i by (intro levRow_fills) simp_all
  have rest: "levRows s1 s2 (tableRows s1 s2 (Suc i)) (Suc i)
      = Some (tableRows s1 s2 (Suc (length s2)))"
    using Suc.hyps(2) i by (intro Suc.hyps(1)) simp_all
  have "levRows s1 s2 (tableRows s1 s2 i) i =
      do {
        arr1 \<leftarrow> writeAt (tableRows s1 s2 i) i [i];
        arr2 \<leftarrow> levRow s1 s2 arr1 i 1;
        levRows s1 s2 arr2 (i + 1)
      }"
    using i by (subst levRows.simps) simp
  also have "\<dots> = Some (tableRows s1 s2 (Suc (length s2)))"
    by (simp only: arr1 arr2 Option.bind.bind_lunit rest Suc_eq_plus1 [symmetric])
  finally show ?case .
qed

lemma levenshteinDistance_lev: "levenshteinDistance s1 s2 = Some (lev s1 s2)"
proof (cases "s1 = [] \<or> s2 = []")
  case True
  then show ?thesis
    by (auto simp: levenshteinDistance_def lev_Nil2)
next
  case False
  have "levRows s1 s2 [] 0 = Some (tableRows s1 s2 (Suc (length s2)))"
    using levRows_fills [of 0 s2 s1] by (simp add: tableRows_def)
  moreover have "readCell (tableRows s1 s2 (Suc (length s2))) (length s2) (length s1)
      = Some (cell s1 s2 (length s2) (length s1))"
    by (simp add: tableRows_Suc readCell_current length_tableRow tableRow_nth)
  moreover have "cell s1 s2 (length s2) (length s1) = lev s1 s2"
    by (simp add: cell_def lev_rev)
  ultimately show ?thesis
    using False by (simp add: levenshteinDistance_def)
qed

text \<open>
  Claim C9.  \<open>levenshteinDistance a b\<close> returns the edit distance of \<open>a\<close> and \<open>b\<close>: some
  sequence of that many single-character insertions, deletions and substitutions
  turns \<open>a\<close> into \<open>b\<close>, and no shorter sequence does.  It returns the length of the
  other string when one argument is empty, it returns 0 exactly when the two
  strings are equal, and it is symmetric.  Every array cell the source reads has been
  assigned before.
\<close>

theorem levenshteinDistance_edit_distance:
  "(\<exists>d. levenshteinDistance a b = Some d \<and> is_edit_distance a b d)
   \<and> levenshteinDistance [] b = Some (length b)
   \<and> levenshteinDistance a [] = Some (length a)
   \<and> (levenshteinDistance a b = Some 0 \<longleftrightarrow> a = b)
   \<and> levenshteinDistance a b = levenshteinDistance b a"
proof (intro conjI)
  show "\<exists>d. levenshteinDistance a b = Some d \<and> is_edit_distance a b d"
    by (simp add: levenshteinDistance_lev lev_is_edit_distance)
  show "levenshteinDistance [] b = Some (length b)"
    by (simp add: levenshteinDistance_lev)
  show "levenshteinDistance a [] = Some (length a)"
    by (simp add: levenshteinDistance_lev lev_Nil2)
  show "levenshteinDistance a b = Some 0 \<longleftrightarrow> a = b"
    by (simp add: levenshteinDistance_lev lev_zero_iff)
  show "levenshteinDistance a b = levenshteinDistance b a"
    by (simp only: levenshteinDistance_lev lev_sym [of a b])
qed

theorem levenshteinDistance_edit_distance_witness:
  "levenshteinDistance ''kitten'' ''sitting'' = Some 3
   \<and> is_edit_distance ''kitten'' ''sitting'' 3"
proof -
  have "levenshteinDistance ''kitten'' ''sitting'' = Some 3"
    by code_simp
  with levenshteinDistance_edit_distance [of "''kitten''" "''sitting''"] show ?thesis
    by simp
qed

end
